theory Spec2Isabelle
  imports Main
begin

section \<open>The rules engine consumed by the trainer\<close>

text \<open>
  The trainer (\<^verbatim>\<open>ChessPuzzle\<close> in \<^verbatim>\<open>src/App.tsx\<close>) never looks at a board itself: every
  question about chess goes to the \<^verbatim>\<open>Chess\<close> class of the library chess.js, which is not
  part of the repository. The rules of chess are therefore a parameter of the model, a
  record of three functions on position strings (FEN):
  \<^item> \<open>valid_fen\<close>: the engine loads the position string;
  \<^item> \<open>san_move\<close>: the move that the lenient reading of a notation string denotes in a
    position, with the position after it, or \<open>None\<close> when the string denotes no legal move;
  \<^item> \<open>obj_move\<close>: the same for a move given by its two squares and a promotion piece.

  The component calls \<^verbatim>\<open>isCheckmate\<close>, \<^verbatim>\<open>isDraw\<close>, \<^verbatim>\<open>isStalemate\<close> and
  \<^verbatim>\<open>isThreefoldRepetition\<close> at every render, the method names of the releases 1.x of
  chess.js. In these releases \<^verbatim>\<open>new Chess(fen)\<close> throws on a string it cannot load and
  \<^verbatim>\<open>move\<close> throws \<^verbatim>\<open>Invalid move: ...\<close> on a move that is not legal: it never returns null.
  The tests \<^verbatim>\<open>if (!move)\<close>, \<^verbatim>\<open>if (!mv)\<close> and \<^verbatim>\<open>if (mv)\<close> of the source are therefore
  decided as soon as \<^verbatim>\<open>move\<close> returns, and a refused move is an exception, caught only
  where the call stands inside a \<^verbatim>\<open>try\<close>.
\<close>

type_synonym fen = string
type_synonym square = string

record move =
  san :: string
  from_sq :: square
  to_sq :: square

record engine =
  valid_fen :: "fen \<Rightarrow> bool"
  san_move :: "fen \<Rightarrow> string \<Rightarrow> (fen \<times> move) option"
  obj_move :: "fen \<Rightarrow> square \<Rightarrow> square \<Rightarrow> char option \<Rightarrow> (fen \<times> move) option"

text \<open>
  The exceptions: the two of the library (a position string that cannot be loaded; a
  notation string or a move object that is not a legal move) and
  \<^verbatim>\<open>Error(`Invalid solution move: ${token}`)\<close> of \<^verbatim>\<open>toSanSequence\<close>.
\<close>

datatype error =
  InvalidFen fen
  | InvalidMove_san string
  | InvalidMove_obj square square "char option"
  | InvalidSolutionMove string

text \<open>
  A \<^verbatim>\<open>Chess\<close> object is the position it shows together with the stack of moves made
  on this object, which is what \<^verbatim>\<open>undo()\<close> pops. The constructor loads the position
  and starts with an empty stack; \<^verbatim>\<open>undo()\<close> on an empty stack returns null and
  changes nothing. \<^verbatim>\<open>move\<close> returns the move object and changes the board, or throws and
  leaves the board as it was.
\<close>

record chess =
  position :: fen
  history :: "(fen \<times> move) list"

definition new_Chess :: "engine \<Rightarrow> fen \<Rightarrow> error + chess" where
  "new_Chess E f =
     (if valid_fen E f then Inr \<lparr>position = f, history = []\<rparr> else Inl (InvalidFen f))"

definition chess_fen :: "chess \<Rightarrow> fen" where
  "chess_fen ch = position ch"

definition made :: "chess \<Rightarrow> error \<Rightarrow> (fen \<times> move) option \<Rightarrow> error + (move \<times> chess)" where
  "made ch invalid r =
     (case r of
        None \<Rightarrow> Inl invalid
      | Some (p, mv) \<Rightarrow>
          Inr (mv, ch\<lparr>position := p, history := (position ch, mv) # history ch\<rparr>))"

definition chess_move_san :: "engine \<Rightarrow> chess \<Rightarrow> string \<Rightarrow> error + (move \<times> chess)" where
  "chess_move_san E ch token =
     made ch (InvalidMove_san token) (san_move E (position ch) token)"

definition chess_move_obj ::
  "engine \<Rightarrow> chess \<Rightarrow> square \<Rightarrow> square \<Rightarrow> char option \<Rightarrow> error + (move \<times> chess)" where
  "chess_move_obj E ch f t pr =
     made ch (InvalidMove_obj f t pr) (obj_move E (position ch) f t pr)"

definition chess_undo :: "chess \<Rightarrow> move option \<times> chess" where
  "chess_undo ch =
     (case history ch of
        [] \<Rightarrow> (None, ch)
      | (p, mv) # h \<Rightarrow> (Some mv, ch\<lparr>position := p, history := h\<rparr>))"

section \<open>The move notation normalizer: \<^verbatim>\<open>toSanSequence\<close>\<close>

text \<open>The test \<^verbatim>\<open>/^[a-h][1-8][a-h][1-8][qrbn]?$/\<close> on a token.\<close>

definition is_file :: "char \<Rightarrow> bool" where
  "is_file c = (c \<in> set ''abcdefgh'')"

definition is_rank :: "char \<Rightarrow> bool" where
  "is_rank c = (c \<in> set ''12345678'')"

definition is_promo :: "char \<Rightarrow> bool" where
  "is_promo c = (c \<in> set ''qrbn'')"

fun uci_token :: "string \<Rightarrow> bool" where
  "uci_token [a, b, c, d] = (is_file a \<and> is_rank b \<and> is_file c \<and> is_rank d)"
| "uci_token [a, b, c, d, e] =
     (is_file a \<and> is_rank b \<and> is_file c \<and> is_rank d \<and> is_promo e)"
| "uci_token _ = False"

text \<open>\<^verbatim>\<open>token.slice(0, 2)\<close>, \<^verbatim>\<open>token.slice(2, 4)\<close> and \<^verbatim>\<open>token[4]\<close> (undefined past the end).\<close>

definition uci_from :: "string \<Rightarrow> square" where
  "uci_from token = take 2 token"

definition uci_to :: "string \<Rightarrow> square" where
  "uci_to token = take 2 (drop 2 token)"

definition uci_promotion :: "string \<Rightarrow> char option" where
  "uci_promotion token = (if 4 < length token then Some (token ! 4) else None)"

text \<open>
  The callback of \<^verbatim>\<open>seq.map\<close>. The notation string is tried inside
  \<^verbatim>\<open>try { ... } catch { /* ignore */ }\<close>: a refusal is caught. The coordinate form is
  tried after the \<^verbatim>\<open>try\<close>, so a refusal there is the library's exception and leaves
  the function; \<^verbatim>\<open>throw new Error(`Invalid solution move: ${token}`)\<close> is reached only
  by a token that fails the test of the coordinate form. The callback works on the one
  \<^verbatim>\<open>clone\<close> shared by all tokens, so it returns the board too.
\<close>

definition token_san :: "engine \<Rightarrow> chess \<Rightarrow> string \<Rightarrow> error + (string \<times> chess)" where
  "token_san E clone token =
     (case chess_move_san E clone token of
        Inr (mv, clone') \<Rightarrow> Inr (san mv, clone')
      | Inl caught \<Rightarrow>
          (if uci_token token then
             (case chess_move_obj E clone (uci_from token) (uci_to token) (uci_promotion token) of
                Inr (mv, clone') \<Rightarrow> Inr (san mv, clone')
              | Inl e \<Rightarrow> Inl e)
           else Inl (InvalidSolutionMove token)))"

fun map_tokens :: "engine \<Rightarrow> chess \<Rightarrow> string list \<Rightarrow> error + string list" where
  "map_tokens E clone [] = Inr []"
| "map_tokens E clone (token # rest) =
     (case token_san E clone token of
        Inl e \<Rightarrow> Inl e
      | Inr (s, clone') \<Rightarrow>
          (case map_tokens E clone' rest of
             Inl e \<Rightarrow> Inl e
           | Inr out \<Rightarrow> Inr (s # out)))"

definition toSanSequence :: "engine \<Rightarrow> fen \<Rightarrow> string list \<Rightarrow> error + string list" where
  "toSanSequence E initialFen seq =
     (case new_Chess E initialFen of
        Inl e \<Rightarrow> Inl e
      | Inr clone \<Rightarrow> map_tokens E clone seq)"

section \<open>The component state\<close>

datatype colour = White | Black

record puzzle_config =
  pz_title :: "string option"
  pz_subtitle :: "string option"
  pz_orientation :: "colour option"
  pz_fen :: fen
  pz_solution :: "string list"
  pz_coachNotes :: "string list option"

record coach_item =
  item_ok :: bool
  item_text :: string

text \<open>The state cells of \<^verbatim>\<open>ChessPuzzle\<close> that the handlers write, one field for each
  \<^verbatim>\<open>useState\<close> (the board orientation is fixed at the first render).\<close>

record session =
  puzzle :: puzzle_config
  fen :: fen
  ply :: nat
  wrong :: bool
  arrows :: "(square \<times> square) list"
  solved :: bool
  coach :: "coach_item list"

definition DEFAULT_PUZZLE :: puzzle_config where
  "DEFAULT_PUZZLE =
     \<lparr>pz_title = Some ''Daily Puzzle (Demo)'',
      pz_subtitle = Some ''White to move - Mate in 1'',
      pz_orientation = Some White,
      pz_fen = ''7k/5Q2/7K/8/8/8/8/8 w - - 0 1'',
      pz_solution = [''Qg7#''],
      pz_coachNotes = Some [''Qg7#'']\<rparr>"

text \<open>The state of the first render, for the configuration \<^verbatim>\<open>initialCfg\<close> (the default
  puzzle overridden by the properties given to the component). The subtitle of the default
  puzzle is written with an ASCII dash.\<close>

definition initial :: "puzzle_config \<Rightarrow> session" where
  "initial initialCfg =
     \<lparr>puzzle = initialCfg, fen = pz_fen initialCfg, ply = 0, wrong = False,
      arrows = [], solved = False, coach = []\<rparr>"

text \<open>\<^verbatim>\<open>expectedSequence\<close>, recomputed from the active puzzle; it throws when the
  solution does not normalize.\<close>

definition expectedSequence :: "engine \<Rightarrow> session \<Rightarrow> error + string list" where
  "expectedSequence E s = toSanSequence E (pz_fen (puzzle s)) (pz_solution (puzzle s))"

text \<open>\<^verbatim>\<open>puzzle.coachNotes?.[ply] || fallback\<close>: the note when there is a non-empty one.\<close>

definition note_or :: "string list option \<Rightarrow> nat \<Rightarrow> string \<Rightarrow> string" where
  "note_or notes i fallback =
     (case notes of
        None \<Rightarrow> fallback
      | Some ns \<Rightarrow> (if i < length ns \<and> ns ! i \<noteq> [] then ns ! i else fallback))"

text \<open>\<^verbatim>\<open>s.replace(/[+#!?]+/g, "")\<close>: every one of the four characters is removed.\<close>

definition clean :: "string \<Rightarrow> string" where
  "clean s = filter (\<lambda>c. c \<notin> set ''+#!?'') s"

section \<open>The handlers\<close>

text \<open>
  A handler is a closure of one render: it reads the state cells and
  \<^verbatim>\<open>expectedSequence\<close> of that render, here the arguments \<open>s\<close> and \<open>es\<close>.
  An exception that leaves the handler is the \<open>Inl\<close> result. \<^verbatim>\<open>playExpectedMove\<close> and
  \<^verbatim>\<open>showHint\<close> make their move inside \<^verbatim>\<open>try { ... } catch { /* ignore */ }\<close>;
  \<^verbatim>\<open>onDrop\<close> makes its move outside any \<^verbatim>\<open>try\<close>.
\<close>

definition reset :: "session \<Rightarrow> session" where
  "reset s =
     s\<lparr>fen := pz_fen (puzzle s), ply := 0, wrong := False, arrows := [],
       solved := False, coach := []\<rparr>"

definition undo :: "engine \<Rightarrow> session \<Rightarrow> error + session" where
  "undo E s =
     (case new_Chess E (fen s) of
        Inl e \<Rightarrow> Inl e
      | Inr ch \<Rightarrow>
          (case chess_undo ch of
             (None, _) \<Rightarrow> Inr s
           | (Some undone, ch') \<Rightarrow>
               Inr (s\<lparr>ply := max 0 (ply s - 1), coach := butlast (coach s),
                      fen := chess_fen ch', wrong := False, solved := False,
                      arrows := []\<rparr>)))"

definition playExpectedMove :: "engine \<Rightarrow> string list \<Rightarrow> session \<Rightarrow> error + session" where
  "playExpectedMove E es s =
     (if length es \<le> ply s then Inr s
      else
        (case new_Chess E (fen s) of
           Inl e \<Rightarrow> Inl e
         | Inr ch \<Rightarrow>
             (case chess_move_san E ch (es ! ply s) of
                Inl caught \<Rightarrow> Inr s
              | Inr (mv, ch') \<Rightarrow>
                  Inr (s\<lparr>fen := chess_fen ch',
                         ply := ply s + 1,
                         coach := coach s @
                           [\<lparr>item_ok = True,
                             item_text = note_or (pz_coachNotes (puzzle s)) (ply s) (san mv)\<rparr>],
                         solved := (if ply s + 1 = length es then True else solved s)\<rparr>))))"

text \<open>Past the end \<^verbatim>\<open>expectedSequence[ply]\<close> is undefined, which \<^verbatim>\<open>move\<close> refuses, and
  the handler ignores the exception.\<close>

definition showHint :: "engine \<Rightarrow> string list \<Rightarrow> session \<Rightarrow> error + session" where
  "showHint E es s =
     (case new_Chess E (fen s) of
        Inl e \<Rightarrow> Inl e
      | Inr ch \<Rightarrow>
          (if length es \<le> ply s then Inr s
           else
             (case chess_move_san E ch (es ! ply s) of
                Inl caught \<Rightarrow> Inr s
              | Inr (mv, ch') \<Rightarrow>
                  (case chess_undo ch' of
                     (_, _) \<Rightarrow> Inr (s\<lparr>arrows := [(from_sq mv, to_sq mv)]\<rparr>)))))"

text \<open>
  \<^verbatim>\<open>onDrop\<close> returns the boolean the board asked for and the new state. The move is
  always made with \<^verbatim>\<open>promotion: "q"\<close>, by a call that stands outside any \<^verbatim>\<open>try\<close>: for
  a move that is not legal the library's exception leaves the handler, and the line
  \<^verbatim>\<open>if (!move) return false; // illegal\<close> after the call is never the one that rejects.
  \<^verbatim>\<open>expectedSan && ...\<close> is false when \<^verbatim>\<open>expectedSequence[ply]\<close> is undefined or the empty
  string.
\<close>

definition correct :: "string list \<Rightarrow> nat \<Rightarrow> string \<Rightarrow> bool" where
  "correct es i playedSan =
     (i < length es \<and> es ! i \<noteq> [] \<and> clean (es ! i) = clean playedSan)"

definition onDrop ::
  "engine \<Rightarrow> string list \<Rightarrow> session \<Rightarrow> square \<Rightarrow> square \<Rightarrow> error + (bool \<times> session)" where
  "onDrop E es s sourceSquare targetSquare =
     (case new_Chess E (fen s) of
        Inl e \<Rightarrow> Inl e
      | Inr ch \<Rightarrow>
          (case chess_move_obj E ch sourceSquare targetSquare (Some CHR ''q'') of
             Inl e \<Rightarrow> Inl e
           | Inr (mv, ch') \<Rightarrow>
               (if \<not> correct es (ply s) (san mv) then Inr (False, s\<lparr>wrong := True\<rparr>)
                else
                  Inr (True,
                       s\<lparr>fen := chess_fen ch',
                         ply := ply s + 1,
                         coach := coach s @
                           [\<lparr>item_ok = True,
                             item_text = note_or (pz_coachNotes (puzzle s)) (ply s) (san mv)\<rparr>],
                         arrows := [],
                         solved := (if ply s + 1 = length es then True else solved s)\<rparr>))))"

text \<open>The callback of \<^verbatim>\<open>setTimeout\<close> that a wrong move schedules.\<close>

definition wrong_timeout :: "session \<Rightarrow> session" where
  "wrong_timeout s = s\<lparr>wrong := False\<rparr>"

subsection \<open>The puzzle loader\<close>

datatype alert = Invalid_FEN | Invalid_solution_list

definition onLoad :: "engine \<Rightarrow> session \<Rightarrow> fen \<Rightarrow> alert option \<times> session" where
  "onLoad E s f =
     (case new_Chess E f of
        Inl e \<Rightarrow> (Some Invalid_FEN, s)
      | Inr _ \<Rightarrow>
          (None,
           s\<lparr>puzzle := (puzzle s)\<lparr>pz_fen := f\<rparr>, fen := f, ply := 0, solved := False,
             wrong := False, coach := []\<rparr>))"

text \<open>
  \<^verbatim>\<open>onLoadSolution\<close> validates against \<^verbatim>\<open>puzzle.fen\<close> of the render it was created in
  (\<open>rendered\<close>) and updates the cells as they are now (\<open>s\<close>); the two differ only
  inside \<^verbatim>\<open>loadDemo\<close>, which calls \<^verbatim>\<open>onLoad\<close> first.
\<close>

definition onLoadSolution ::
  "engine \<Rightarrow> puzzle_config \<Rightarrow> session \<Rightarrow> string list \<Rightarrow> alert option \<times> session" where
  "onLoadSolution E rendered s seq =
     (case toSanSequence E (pz_fen rendered) seq of
        Inl e \<Rightarrow> (Some Invalid_solution_list, s)
      | Inr _ \<Rightarrow>
          (None,
           s\<lparr>puzzle := (puzzle s)\<lparr>pz_solution := seq\<rparr>, ply := 0, solved := False,
             wrong := False, coach := [], arrows := []\<rparr>))"

definition loadDemo :: "engine \<Rightarrow> session \<Rightarrow> alert list \<times> session" where
  "loadDemo E s =
     (case onLoad E s (pz_fen DEFAULT_PUZZLE) of
        (a1, s1) \<Rightarrow>
          (case onLoadSolution E (puzzle s) s1 (pz_solution DEFAULT_PUZZLE) of
             (a2, s2) \<Rightarrow> (List.map_filter id [a1, a2], s2)))"

subsection \<open>The controls as rendered\<close>

text \<open>
  The board is rendered with \<^verbatim>\<open>arePiecesDraggable={!solved}\<close> and calls
  \<^verbatim>\<open>onPieceDrop(source, target, piece)\<close>, of which \<^verbatim>\<open>onDrop\<close> takes the two squares;
  the coach button is rendered with \<^verbatim>\<open>disabled={solved}\<close>. With the puzzle solved
  neither handler is called: no drop happens, nothing changes.
\<close>

definition submitMove ::
  "engine \<Rightarrow> string list \<Rightarrow> session \<Rightarrow> square \<Rightarrow> square \<Rightarrow> string \<Rightarrow> error + (bool \<times> session)"
  where
  "submitMove E es s sourceSquare targetSquare piece =
     (if solved s then Inr (False, s) else onDrop E es s sourceSquare targetSquare)"

definition coachButton :: "engine \<Rightarrow> string list \<Rightarrow> session \<Rightarrow> error + session" where
  "coachButton E es s = (if solved s then Inr s else playExpectedMove E es s)"

text \<open>
  A render computes \<^verbatim>\<open>expectedSequence\<close> and then \<^verbatim>\<open>prettyResult(new Chess(fen))\<close>; when
  either throws there is no rendered component and no handler to call.
\<close>

definition render :: "engine \<Rightarrow> session \<Rightarrow> error + string list" where
  "render E s =
     (case expectedSequence E s of
        Inl e \<Rightarrow> Inl e
      | Inr es \<Rightarrow> (case new_Chess E (fen s) of Inl e \<Rightarrow> Inl e | Inr _ \<Rightarrow> Inr es))"

datatype event =
  PieceDrop square square string
  | UndoClick
  | ResetClick
  | HintClick
  | CoachClick
  | LoadFenClick fen
  | LoadSolutionClick "string list"
  | LoadDemoClick
  | WrongTimeout

text \<open>
  An exception that leaves a handler is thrown before the handler has written any state
  cell (the calls that throw, \<^verbatim>\<open>new Chess\<close> and \<^verbatim>\<open>move\<close>, come first), and an exception in
  an event handler does not unmount the component: the state stays as it was.
\<close>

definition uncaught :: "session \<Rightarrow> error + session \<Rightarrow> session" where
  "uncaught s r = (case r of Inl e \<Rightarrow> s | Inr s' \<Rightarrow> s')"

text \<open>The button \<^verbatim>\<open>Load FEN\<close> calls \<^verbatim>\<open>onLoad\<close> only for a non-empty input; the event of
  the button \<^verbatim>\<open>Load Solution\<close> carries the token list that \<^verbatim>\<open>parseMoves\<close> made of the
  text field.\<close>

definition fire :: "engine \<Rightarrow> event \<Rightarrow> session \<Rightarrow> error + session" where
  "fire E ev s =
     (case render E s of
        Inl e \<Rightarrow> Inl e
      | Inr es \<Rightarrow>
          (case ev of
             PieceDrop f t piece \<Rightarrow>
               Inr (uncaught s (map_sum id snd (submitMove E es s f t piece)))
           | UndoClick \<Rightarrow> Inr (uncaught s (undo E s))
           | ResetClick \<Rightarrow> Inr (reset s)
           | HintClick \<Rightarrow> Inr (uncaught s (showHint E es s))
           | CoachClick \<Rightarrow> Inr (uncaught s (coachButton E es s))
           | LoadFenClick f \<Rightarrow> Inr (if f = [] then s else snd (onLoad E s f))
           | LoadSolutionClick seq \<Rightarrow> Inr (snd (onLoadSolution E (puzzle s) s seq))
           | LoadDemoClick \<Rightarrow> Inr (snd (loadDemo E s))
           | WrongTimeout \<Rightarrow> Inr (wrong_timeout s)))"

fun run :: "engine \<Rightarrow> event list \<Rightarrow> session \<Rightarrow> error + session" where
  "run E [] s = Inr s"
| "run E (ev # evs) s = (case fire E ev s of Inl e \<Rightarrow> Inl e | Inr s' \<Rightarrow> run E evs s')"

section \<open>A finite fragment of the rules, for running the model\<close>

text \<open>
  The theorems below hold for every engine. To run the model, \<open>demo_engine\<close> tabulates
  the rules of chess on a few positions: the start position of \<^verbatim>\<open>DEFAULT_PUZZLE\<close> (white
  queen f7 and king h6 against the king on h8) and a pawn ending (white king a1 and pawn
  a7 against the king on h7). A row is a position, the two squares of a legal move, the
  promotion piece if the move promotes, the move's notation and the position after it.
  Moves that are not in the table are refused. A notation string is matched up to the
  decorations and, as the lenient reading of the library does, a string of two squares
  and an optional promotion letter is read as the move between the squares; so the
  second branch of \<^verbatim>\<open>toSanSequence\<close> is reached only by a coordinate string that is not a
  legal move.
\<close>

definition demo_table :: "(fen \<times> square \<times> square \<times> char option \<times> string \<times> fen) list" where
  "demo_table =
     [(''7k/5Q2/7K/8/8/8/8/8 w - - 0 1'', ''f7'', ''g7'', None, ''Qg7#'',
         ''7k/6Q1/7K/8/8/8/8/8 b - - 1 1''),
      (''7k/5Q2/7K/8/8/8/8/8 w - - 0 1'', ''f7'', ''f8'', None, ''Qf8#'',
         ''5Q1k/8/7K/8/8/8/8/8 b - - 1 1''),
      (''7k/5Q2/7K/8/8/8/8/8 w - - 0 1'', ''h6'', ''g6'', None, ''Kg6'',
         ''7k/5Q2/6K1/8/8/8/8/8 b - - 1 1''),
      (''8/P6k/8/8/8/8/8/K7 w - - 0 1'', ''a7'', ''a8'', Some CHR ''q'', ''a8=Q'',
         ''Q7/7k/8/8/8/8/8/K7 b - - 0 1''),
      (''8/P6k/8/8/8/8/8/K7 w - - 0 1'', ''a7'', ''a8'', Some CHR ''n'', ''a8=N'',
         ''N7/7k/8/8/8/8/8/K7 b - - 0 1''),
      (''8/P6k/8/8/8/8/8/K7 w - - 0 1'', ''a1'', ''b2'', None, ''Kb2'',
         ''8/P6k/8/8/8/8/1K6/8 b - - 1 1''),
      (''8/P6k/8/8/8/8/1K6/8 b - - 1 1'', ''h7'', ''g7'', None, ''Kg7'',
         ''8/P5k1/8/8/8/8/1K6/8 w - - 2 2''),
      (''8/P5k1/8/8/8/8/1K6/8 w - - 2 2'', ''a7'', ''a8'', Some CHR ''q'', ''a8=Q'',
         ''Q7/6k1/8/8/8/8/1K6/8 b - - 0 2''),
      (''8/P5k1/8/8/8/8/1K6/8 w - - 2 2'', ''a7'', ''a8'', Some CHR ''n'', ''a8=N'',
         ''N7/6k1/8/8/8/8/1K6/8 b - - 0 2''),
      (''Q7/6k1/8/8/8/8/1K6/8 b - - 0 2'', ''g7'', ''g6'', None, ''Kg6'',
         ''Q7/8/6k1/8/8/8/1K6/8 w - - 1 3'')]"

definition demo_result ::
  "(fen \<times> square \<times> square \<times> char option \<times> string \<times> fen) option \<Rightarrow> (fen \<times> move) option" where
  "demo_result row =
     (case row of
        None \<Rightarrow> None
      | Some (p, f, t, pr, s, q) \<Rightarrow> Some (q, \<lparr>san = s, from_sq = f, to_sq = t\<rparr>))"

definition demo_valid_fen :: "fen \<Rightarrow> bool" where
  "demo_valid_fen p =
     (p \<in> set (map (\<lambda>(p, f, t, pr, s, q). p) demo_table)
      \<or> p \<in> set (map (\<lambda>(p, f, t, pr, s, q). q) demo_table))"

definition demo_obj_move ::
  "fen \<Rightarrow> square \<Rightarrow> square \<Rightarrow> char option \<Rightarrow> (fen \<times> move) option" where
  "demo_obj_move p0 f0 t0 pr0 =
     demo_result
       (List.find (\<lambda>(p, f, t, pr, s, q). p = p0 \<and> f = f0 \<and> t = t0 \<and> (pr = None \<or> pr = pr0))
          demo_table)"

definition demo_san_move :: "fen \<Rightarrow> string \<Rightarrow> (fen \<times> move) option" where
  "demo_san_move p0 token =
     (case List.find (\<lambda>(p, f, t, pr, s, q). p = p0 \<and> clean s = clean token) demo_table of
        Some row \<Rightarrow> demo_result (Some row)
      | None \<Rightarrow>
          (case token of
             [a, b, c, d] \<Rightarrow> demo_obj_move p0 [a, b] [c, d] None
           | [a, b, c, d, x] \<Rightarrow> demo_obj_move p0 [a, b] [c, d] (Some x)
           | _ \<Rightarrow> None))"

definition demo_engine :: engine where
  "demo_engine =
     \<lparr>valid_fen = demo_valid_fen, san_move = demo_san_move, obj_move = demo_obj_move\<rparr>"

text \<open>Two puzzles on the pawn ending: a line of three plies given in mixed notation, and
  a line whose only move promotes to a knight.\<close>

definition pawn_puzzle :: puzzle_config where
  "pawn_puzzle =
     \<lparr>pz_title = None, pz_subtitle = None, pz_orientation = None,
      pz_fen = ''8/P6k/8/8/8/8/8/K7 w - - 0 1'',
      pz_solution = [''Kb2'', ''h7g7'', ''a8=Q''],
      pz_coachNotes = None\<rparr>"

definition knight_puzzle :: puzzle_config where
  "knight_puzzle =
     \<lparr>pz_title = None, pz_subtitle = None, pz_orientation = None,
      pz_fen = ''8/P6k/8/8/8/8/8/K7 w - - 0 1'',
      pz_solution = [''a8=N''],
      pz_coachNotes = None\<rparr>"

section \<open>Notions used to state the properties\<close>

subsection \<open>What a token denotes\<close>

text \<open>
  The normalizer's contract in its own words: a token is read as a notation string first
  and, when that gives no move, as a coordinate string of four or five characters (two
  squares and an optional promotion letter among q, r, b, n). \<open>reached\<close> is the position
  after a list of tokens, each read in the position that the tokens before it lead to.
\<close>

definition coordinate_form :: "string \<Rightarrow> bool" where
  "coordinate_form t =
     ((length t = 4 \<or> length t = 5)
      \<and> t ! 0 \<in> set ''abcdefgh'' \<and> t ! 1 \<in> set ''12345678''
      \<and> t ! 2 \<in> set ''abcdefgh'' \<and> t ! 3 \<in> set ''12345678''
      \<and> (length t = 5 \<longrightarrow> t ! 4 \<in> set ''qrbn''))"

definition token_move :: "engine \<Rightarrow> fen \<Rightarrow> string \<Rightarrow> (fen \<times> move) option" where
  "token_move E p t =
     (case san_move E p t of
        Some r \<Rightarrow> Some r
      | None \<Rightarrow>
          (if coordinate_form t
           then obj_move E p (take 2 t) (take 2 (drop 2 t))
                  (if length t = 5 then Some (t ! 4) else None)
           else None))"

fun reached :: "engine \<Rightarrow> fen \<Rightarrow> string list \<Rightarrow> fen option" where
  "reached E p [] = Some p"
| "reached E p (t # ts) =
     (case token_move E p t of None \<Rightarrow> None | Some (q, mv) \<Rightarrow> reached E q ts)"

subsection \<open>Playing a line on the board\<close>

text \<open>
  \<open>plays_line E p es ds\<close>: the drops \<open>ds\<close> (source square, target square, dragged piece)
  are legal one after the other from \<open>p\<close>, the move of each drop reads like the expected
  move once the decorations are stripped, and each position reached can be loaded.
\<close>

fun plays_line :: "engine \<Rightarrow> fen \<Rightarrow> string list \<Rightarrow> (square \<times> square \<times> string) list \<Rightarrow> bool" where
  "plays_line E p [] [] = True"
| "plays_line E p (e # es) ((f, t, piece) # ds) =
     (case obj_move E p f t (Some CHR ''q'') of
        None \<Rightarrow> False
      | Some (q, mv) \<Rightarrow>
          e \<noteq> [] \<and> clean e = clean (san mv) \<and> valid_fen E q \<and> plays_line E q es ds)"
| "plays_line E p _ _ = False"

definition drop_event :: "square \<times> square \<times> string \<Rightarrow> event" where
  "drop_event d = (case d of (f, t, piece) \<Rightarrow> PieceDrop f t piece)"

subsection \<open>The position after the first moves of the line\<close>

text \<open>
  \<open>applies E p e q\<close>: the expected move \<open>e\<close> played in \<open>p\<close> gives \<open>q\<close>, either by the
  engine reading \<open>e\<close> (the coach move) or by a drop whose move matches \<open>e\<close>.
  \<open>line_reach E p0 es q\<close>: the moves \<open>es\<close>, applied in order from \<open>p0\<close>, give \<open>q\<close>.
\<close>

inductive applies :: "engine \<Rightarrow> fen \<Rightarrow> string \<Rightarrow> fen \<Rightarrow> bool" for E :: engine where
  by_notation: "san_move E p e = Some (q, mv) \<Longrightarrow> applies E p e q"
| by_drop: "obj_move E p f t (Some CHR ''q'') = Some (q, mv) \<Longrightarrow> e \<noteq> [] \<Longrightarrow>
            clean e = clean (san mv) \<Longrightarrow> applies E p e q"

inductive line_reach :: "engine \<Rightarrow> fen \<Rightarrow> string list \<Rightarrow> fen \<Rightarrow> bool"
  for E :: engine and p0 :: fen where
  at_start: "line_reach E p0 [] p0"
| after_move: "line_reach E p0 es p \<Longrightarrow> applies E p e q \<Longrightarrow> line_reach E p0 (es @ [e]) q"

text \<open>
  \<open>loads_at_start E evs s\<close>: in the run of the events \<open>evs\<close> from \<open>s\<close>, every solution
  list that the button \<^verbatim>\<open>Load Solution\<close> submits is either refused or submitted while
  the board shows the start position of the puzzle.
\<close>

fun loads_at_start :: "engine \<Rightarrow> event list \<Rightarrow> session \<Rightarrow> bool" where
  "loads_at_start E [] s = True"
| "loads_at_start E (ev # evs) s =
     ((case ev of
         LoadSolutionClick seq \<Rightarrow>
           fen s = pz_fen (puzzle s) \<or> isl (toSanSequence E (pz_fen (puzzle s)) seq)
       | _ \<Rightarrow> True)
      \<and> (case fire E ev s of Inl e \<Rightarrow> True | Inr s' \<Rightarrow> loads_at_start E evs s'))"

text \<open>The two invariants of the reachable states, for the proofs.\<close>

definition progress_inv :: "engine \<Rightarrow> session \<Rightarrow> bool" where
  "progress_inv E s =
     (ply s = length (filter item_ok (coach s)) \<and> list_all item_ok (coach s)
      \<and> (case expectedSequence E s of
            Inl e \<Rightarrow> True
          | Inr es \<Rightarrow> ply s \<le> length es \<and> (solved s \<longleftrightarrow> ply s = length es \<and> es \<noteq> [])))"

definition position_inv :: "engine \<Rightarrow> session \<Rightarrow> bool" where
  "position_inv E s =
     (case expectedSequence E s of
        Inl e \<Rightarrow> True
      | Inr es \<Rightarrow> line_reach E (pz_fen (puzzle s)) (take (ply s) es) (fen s))"

subsection \<open>Under-promotion\<close>

text \<open>
  The promotion letter of a move is the character after \<open>=\<close> in its notation (decorations
  stripped); an under-promotion promotes to a rook, a bishop or a knight.
\<close>

definition promotion_letter :: "string \<Rightarrow> char option" where
  "promotion_letter s =
     (case dropWhile (\<lambda>c. c \<noteq> CHR ''='') (clean s) of
        eq # c # rest \<Rightarrow> Some c
      | _ \<Rightarrow> None)"

definition underpromotion :: "string \<Rightarrow> bool" where
  "underpromotion s =
     (promotion_letter s \<in> {Some CHR ''R'', Some CHR ''B'', Some CHR ''N''})"

section \<open>Facts about the handlers\<close>

text \<open>On a position that the engine loads, each handler reduces to a case distinction on
  the engine's answer.\<close>

lemma new_Chess_valid:
  "valid_fen E f \<Longrightarrow> new_Chess E f = Inr \<lparr>position = f, history = []\<rparr>"
  by (simp add: new_Chess_def)

lemma new_Chess_invalid: "\<not> valid_fen E f \<Longrightarrow> new_Chess E f = Inl (InvalidFen f)"
  by (simp add: new_Chess_def)

lemma chess_undo_fresh:
  "chess_undo \<lparr>position = f, history = []\<rparr> = (None, \<lparr>position = f, history = []\<rparr>)"
  by (simp add: chess_undo_def)

lemma undo_changes_nothing: "valid_fen E (fen s) \<Longrightarrow> undo E s = Inr s"
  by (simp add: undo_def new_Chess_valid chess_undo_fresh)

lemma onDrop_valid:
  "valid_fen E (fen s) \<Longrightarrow>
   onDrop E es s f t =
     (case obj_move E (fen s) f t (Some CHR ''q'') of
        None \<Rightarrow> Inl (InvalidMove_obj f t (Some CHR ''q''))
      | Some (p, mv) \<Rightarrow>
          (if \<not> correct es (ply s) (san mv) then Inr (False, s\<lparr>wrong := True\<rparr>)
           else Inr (True,
                  s\<lparr>fen := p, ply := ply s + 1,
                    coach := coach s @
                      [\<lparr>item_ok = True,
                        item_text = note_or (pz_coachNotes (puzzle s)) (ply s) (san mv)\<rparr>],
                    arrows := [],
                    solved := (if ply s + 1 = length es then True else solved s)\<rparr>)))"
  by (simp add: onDrop_def new_Chess_valid chess_move_obj_def made_def chess_fen_def
      split: option.splits)

lemma playExpectedMove_valid:
  "valid_fen E (fen s) \<Longrightarrow>
   playExpectedMove E es s =
     (if length es \<le> ply s then Inr s
      else
        (case san_move E (fen s) (es ! ply s) of
           None \<Rightarrow> Inr s
         | Some (p, mv) \<Rightarrow>
             Inr (s\<lparr>fen := p, ply := ply s + 1,
                    coach := coach s @
                      [\<lparr>item_ok = True,
                        item_text = note_or (pz_coachNotes (puzzle s)) (ply s) (san mv)\<rparr>],
                    solved := (if ply s + 1 = length es then True else solved s)\<rparr>)))"
  by (simp add: playExpectedMove_def new_Chess_valid chess_move_san_def made_def chess_fen_def
      split: option.splits)

lemma showHint_valid:
  "valid_fen E (fen s) \<Longrightarrow>
   showHint E es s =
     (if length es \<le> ply s then Inr s
      else
        (case san_move E (fen s) (es ! ply s) of
           None \<Rightarrow> Inr s
         | Some (p, mv) \<Rightarrow> Inr (s\<lparr>arrows := [(from_sq mv, to_sq mv)]\<rparr>)))"
  by (simp add: showHint_def new_Chess_valid chess_move_san_def made_def
      split: option.splits prod.splits)

lemma render_Inr:
  "render E s = Inr es \<longleftrightarrow> expectedSequence E s = Inr es \<and> valid_fen E (fen s)"
  by (auto simp add: render_def new_Chess_def split: sum.splits)

lemma fire_drop:
  assumes "render E s = Inr es"
  shows "fire E (PieceDrop f t piece) s =
           Inr (if solved s then s
                else (case obj_move E (fen s) f t (Some CHR ''q'') of
                        None \<Rightarrow> s
                      | Some (p, mv) \<Rightarrow>
                          (if \<not> correct es (ply s) (san mv) then s\<lparr>wrong := True\<rparr>
                           else s\<lparr>fen := p, ply := ply s + 1,
                                  coach := coach s @
                                    [\<lparr>item_ok = True,
                                      item_text =
                                        note_or (pz_coachNotes (puzzle s)) (ply s) (san mv)\<rparr>],
                                  arrows := [],
                                  solved :=
                                    (if ply s + 1 = length es then True else solved s)\<rparr>)))"
proof -
  have v: "valid_fen E (fen s)" using assms by (simp add: render_Inr)
  show ?thesis
    by (simp add: fire_def assms submitMove_def onDrop_valid[OF v] uncaught_def
        split: option.splits)
qed

lemma fire_undo:
  assumes "render E s = Inr es"
  shows "fire E UndoClick s = Inr s"
proof -
  have v: "valid_fen E (fen s)" using assms by (simp add: render_Inr)
  show ?thesis by (simp add: fire_def assms uncaught_def undo_changes_nothing[OF v])
qed

lemma fire_hint:
  assumes "render E s = Inr es"
  shows "fire E HintClick s =
           Inr (if length es \<le> ply s then s
                else (case san_move E (fen s) (es ! ply s) of
                        None \<Rightarrow> s
                      | Some (p, mv) \<Rightarrow> s\<lparr>arrows := [(from_sq mv, to_sq mv)]\<rparr>))"
proof -
  have v: "valid_fen E (fen s)" using assms by (simp add: render_Inr)
  show ?thesis
    by (simp add: fire_def assms showHint_valid[OF v] uncaught_def split: option.splits)
qed

lemma fire_coach:
  assumes "render E s = Inr es"
  shows "fire E CoachClick s =
           Inr (if solved s \<or> length es \<le> ply s then s
                else (case san_move E (fen s) (es ! ply s) of
                        None \<Rightarrow> s
                      | Some (p, mv) \<Rightarrow>
                          s\<lparr>fen := p, ply := ply s + 1,
                            coach := coach s @
                              [\<lparr>item_ok = True,
                                item_text =
                                  note_or (pz_coachNotes (puzzle s)) (ply s) (san mv)\<rparr>],
                            solved := (if ply s + 1 = length es then True else solved s)\<rparr>))"
proof -
  have v: "valid_fen E (fen s)" using assms by (simp add: render_Inr)
  show ?thesis
    by (simp add: fire_def assms coachButton_def playExpectedMove_valid[OF v] uncaught_def
        split: option.splits)
qed

section \<open>Undo\<close>

text \<open>
  Claim C1: after \<open>k > 0\<close> correct moves, \<^verbatim>\<open>undo()\<close> gives the position, ply index and
  move log of a session in which only the first \<open>k - 1\<close> moves were played; it does nothing
  on an empty log and clears the solved and wrong flags.

  The handler asks a board that it has just built from the position string to take a
  move back. Such a board has no move to take back, so the handler never changes
  anything: in the demo puzzle, after the solving drop f7-g7, Undo leaves ply 1, the mated
  position, the log entry and the solved flag, where the claim gives the initial state.
\<close>

theorem undo_after_solving_move:
  "run demo_engine [PieceDrop ''f7'' ''g7'' ''wQ''] (initial DEFAULT_PUZZLE) =
     Inr \<lparr>puzzle = DEFAULT_PUZZLE, fen = ''7k/6Q1/7K/8/8/8/8/8 b - - 1 1'', ply = 1,
          wrong = False, arrows = [], solved = True,
          coach = [\<lparr>item_ok = True, item_text = ''Qg7#''\<rparr>]\<rparr>
   \<and> run demo_engine [PieceDrop ''f7'' ''g7'' ''wQ'', UndoClick] (initial DEFAULT_PUZZLE) =
     Inr \<lparr>puzzle = DEFAULT_PUZZLE, fen = ''7k/6Q1/7K/8/8/8/8/8 b - - 1 1'', ply = 1,
          wrong = False, arrows = [], solved = True,
          coach = [\<lparr>item_ok = True, item_text = ''Qg7#''\<rparr>]\<rparr>"
  by code_simp

section \<open>Matching a played move against the line\<close>

text \<open>
  Claim C2: a drop that is legal in the current position is accepted exactly when the
  notation of the played move and \<^verbatim>\<open>expectedSequence[ply]\<close> are the same string once every
  \<open>+\<close>, \<open>#\<close>, \<open>!\<close> and \<open>?\<close> is removed from both; nothing else is normalized. (The expected
  move exists and is a non-empty string.) Accepted means: the handler returns true, the
  position becomes the one after the move, the ply index grows by one, the log gets one
  correct entry (the coach note of the ply if there is a non-empty one, the notation of
  the played move otherwise), the hint arrows are cleared and \<open>solved\<close> is raised if this
  was the last ply. Not accepted means: the handler returns false and only the wrong flag
  changes.
\<close>

theorem onDrop_accepts_iff:
  assumes "valid_fen E (fen s)"
    and "obj_move E (fen s) f t (Some CHR ''q'') = Some (p, mv)"
    and "ply s < length es" and "es ! ply s \<noteq> []"
  shows "onDrop E es s f t =
           (if filter (\<lambda>c. c \<notin> {CHR ''+'', CHR ''#'', CHR ''!'', CHR ''?''}) (san mv) =
               filter (\<lambda>c. c \<notin> {CHR ''+'', CHR ''#'', CHR ''!'', CHR ''?''}) (es ! ply s)
            then Inr (True,
                   s\<lparr>fen := p, ply := ply s + 1,
                     coach := coach s @
                       [\<lparr>item_ok = True,
                         item_text =
                           (case pz_coachNotes (puzzle s) of
                              None \<Rightarrow> san mv
                            | Some notes \<Rightarrow>
                                (if ply s < length notes \<and> notes ! ply s \<noteq> []
                                 then notes ! ply s else san mv))\<rparr>],
                     arrows := [],
                     solved := (if ply s + 1 = length es then True else solved s)\<rparr>)
            else Inr (False, s\<lparr>wrong := True\<rparr>))"
proof -
  have "correct es (ply s) (san mv) \<longleftrightarrow>
      filter (\<lambda>c. c \<notin> {CHR ''+'', CHR ''#'', CHR ''!'', CHR ''?''}) (san mv) =
      filter (\<lambda>c. c \<notin> {CHR ''+'', CHR ''#'', CHR ''!'', CHR ''?''}) (es ! ply s)"
    using assms(3,4) by (auto simp add: correct_def clean_def)
  then show ?thesis
    using assms(2) by (simp add: onDrop_valid[OF assms(1)] note_or_def)
qed

text \<open>
  In the demo puzzle the drop f7-g7 is legal, its move reads \<open>Qg7#\<close> like the expected
  move, and it is accepted; the drop f7-f8 is legal (it mates as well) but reads \<open>Qf8#\<close>,
  and only raises the wrong flag.
\<close>

theorem onDrop_accepts_iff_witness:
  "valid_fen demo_engine (fen (initial DEFAULT_PUZZLE))
   \<and> obj_move demo_engine (fen (initial DEFAULT_PUZZLE)) ''f7'' ''g7'' (Some CHR ''q'') =
       Some (''7k/6Q1/7K/8/8/8/8/8 b - - 1 1'', \<lparr>san = ''Qg7#'', from_sq = ''f7'', to_sq = ''g7''\<rparr>)
   \<and> obj_move demo_engine (fen (initial DEFAULT_PUZZLE)) ''f7'' ''f8'' (Some CHR ''q'') =
       Some (''5Q1k/8/7K/8/8/8/8/8 b - - 1 1'', \<lparr>san = ''Qf8#'', from_sq = ''f7'', to_sq = ''f8''\<rparr>)
   \<and> ply (initial DEFAULT_PUZZLE) < length [''Qg7#'']
   \<and> [''Qg7#''] ! ply (initial DEFAULT_PUZZLE) \<noteq> []
   \<and> onDrop demo_engine [''Qg7#''] (initial DEFAULT_PUZZLE) ''f7'' ''g7'' =
       Inr (True, (initial DEFAULT_PUZZLE)
                    \<lparr>fen := ''7k/6Q1/7K/8/8/8/8/8 b - - 1 1'', ply := 1,
                     coach := [\<lparr>item_ok = True, item_text = ''Qg7#''\<rparr>], solved := True\<rparr>)
   \<and> onDrop demo_engine [''Qg7#''] (initial DEFAULT_PUZZLE) ''f7'' ''f8'' =
       Inr (False, (initial DEFAULT_PUZZLE)\<lparr>wrong := True\<rparr>)"
proof -
  have h1: "valid_fen demo_engine (fen (initial DEFAULT_PUZZLE))" by code_simp
  have h2: "obj_move demo_engine (fen (initial DEFAULT_PUZZLE)) ''f7'' ''g7'' (Some CHR ''q'') =
       Some (''7k/6Q1/7K/8/8/8/8/8 b - - 1 1'', \<lparr>san = ''Qg7#'', from_sq = ''f7'', to_sq = ''g7''\<rparr>)"
    by code_simp
  have h2': "obj_move demo_engine (fen (initial DEFAULT_PUZZLE)) ''f7'' ''f8'' (Some CHR ''q'') =
       Some (''5Q1k/8/7K/8/8/8/8/8 b - - 1 1'', \<lparr>san = ''Qf8#'', from_sq = ''f7'', to_sq = ''f8''\<rparr>)"
    by code_simp
  have h3: "ply (initial DEFAULT_PUZZLE) < length [''Qg7#'']" by code_simp
  have h4: "[''Qg7#''] ! ply (initial DEFAULT_PUZZLE) \<noteq> []" by code_simp
  have a: "onDrop demo_engine [''Qg7#''] (initial DEFAULT_PUZZLE) ''f7'' ''g7'' =
       Inr (True, (initial DEFAULT_PUZZLE)
                    \<lparr>fen := ''7k/6Q1/7K/8/8/8/8/8 b - - 1 1'', ply := 1,
                     coach := [\<lparr>item_ok = True, item_text = ''Qg7#''\<rparr>], solved := True\<rparr>)"
    using onDrop_accepts_iff[OF h1 h2 h3 h4]
    by (simp add: initial_def DEFAULT_PUZZLE_def)
  have b: "onDrop demo_engine [''Qg7#''] (initial DEFAULT_PUZZLE) ''f7'' ''f8'' =
       Inr (False, (initial DEFAULT_PUZZLE)\<lparr>wrong := True\<rparr>)"
    using onDrop_accepts_iff[OF h1 h2' h3 h4]
    by (simp add: initial_def DEFAULT_PUZZLE_def)
  from h1 h2 h2' h3 h4 a b show ?thesis by blast
qed

text \<open>
  Claim C3: a drop that is illegal in the current position changes nothing and returns
  false, without raising the wrong flag; a legal drop that does not match the expected
  move changes neither position, ply index nor log, raises the wrong flag and returns
  false.

  The handler makes the move outside any \<^verbatim>\<open>try\<close>, and the library throws on a move that
  is not legal: no rejection is returned, the exception leaves the handler, and the
  line \<^verbatim>\<open>if (!move) return false; // illegal\<close> written for this case is not reached. In
  the demo puzzle, dropping the queen from f7 on a1 is not a legal move: \<^verbatim>\<open>onDrop\<close> throws
  (the state stays as it was). The second half of the claim holds: the legal drop f7-f8
  returns false and raises the wrong flag only.
\<close>

theorem illegal_drop_throws:
  "obj_move demo_engine (fen (initial DEFAULT_PUZZLE)) ''f7'' ''a1'' (Some CHR ''q'') = None
   \<and> onDrop demo_engine [''Qg7#''] (initial DEFAULT_PUZZLE) ''f7'' ''a1'' =
       Inl (InvalidMove_obj ''f7'' ''a1'' (Some CHR ''q''))
   \<and> submitMove demo_engine [''Qg7#''] (initial DEFAULT_PUZZLE) ''f7'' ''a1'' ''wQ'' =
       Inl (InvalidMove_obj ''f7'' ''a1'' (Some CHR ''q''))
   \<and> fire demo_engine (PieceDrop ''f7'' ''a1'' ''wQ'') (initial DEFAULT_PUZZLE) =
       Inr (initial DEFAULT_PUZZLE)
   \<and> onDrop demo_engine [''Qg7#''] (initial DEFAULT_PUZZLE) ''f7'' ''f8'' =
       Inr (False, (initial DEFAULT_PUZZLE)\<lparr>wrong := True\<rparr>)"
  by code_simp

section \<open>Loading\<close>




section \<open>Solving the puzzle\<close>

lemma plays_line_length: "plays_line E p es ds \<Longrightarrow> length ds = length es"
  by (induction E p es ds rule: plays_line.induct) (auto split: option.splits)

lemma expectedSequence_puzzle:
  "puzzle s' = puzzle s \<Longrightarrow> expectedSequence E s' = expectedSequence E s"
  by (simp add: expectedSequence_def)

lemma fire_correct_drop:
  assumes "render E s = Inr es" and "\<not> solved s"
    and "obj_move E (fen s) f t (Some CHR ''q'') = Some (q, mv)"
    and "correct es (ply s) (san mv)"
  shows "fire E (PieceDrop f t piece) s =
           Inr (s\<lparr>fen := q, ply := ply s + 1,
                  coach := coach s @
                    [\<lparr>item_ok = True,
                      item_text = note_or (pz_coachNotes (puzzle s)) (ply s) (san mv)\<rparr>],
                  arrows := [],
                  solved := (if ply s + 1 = length es then True else solved s)\<rparr>)"
  using assms(2-4) by (simp add: fire_drop[OF assms(1)])

lemma plays_line_run:
  assumes "expectedSequence E s = Inr es" and "valid_fen E (fen s)" and "\<not> solved s"
    and "plays_line E (fen s) (drop (ply s) es) ds" and "k \<le> length ds"
  shows "\<exists>s'. run E (map drop_event (take k ds)) s = Inr s' \<and> ply s' = ply s + k
           \<and> (solved s' \<longleftrightarrow> ply s + k = length es \<and> 0 < k)"
  using assms
proof (induction ds arbitrary: s k)
  case Nil
  then show ?case by simp
next
  case (Cons d ds)
  obtain f t piece where d: "d = (f, t, piece)" by (cases d)
  show ?case
  proof (cases k)
    case 0
    then show ?thesis using Cons.prems by simp
  next
    case (Suc j)
    from Cons.prems(4) have ne: "drop (ply s) es \<noteq> []" by (cases "drop (ply s) es") auto
    then have lt: "ply s < length es" by simp
    then have dr: "drop (ply s) es = es ! ply s # drop (Suc (ply s)) es"
      by (simp add: Cons_nth_drop_Suc)
    from Cons.prems(4) d dr obtain q mv where
      m: "obj_move E (fen s) f t (Some CHR ''q'') = Some (q, mv)"
      and e: "es ! ply s \<noteq> []" "clean (es ! ply s) = clean (san mv)"
      and v: "valid_fen E q" and rest: "plays_line E q (drop (Suc (ply s)) es) ds"
      by (auto split: option.splits)
    have c: "correct es (ply s) (san mv)" using lt e by (simp add: correct_def)
    let ?s1 = "s\<lparr>fen := q, ply := ply s + 1,
                  coach := coach s @
                    [\<lparr>item_ok = True,
                      item_text = note_or (pz_coachNotes (puzzle s)) (ply s) (san mv)\<rparr>],
                  arrows := [],
                  solved := (if ply s + 1 = length es then True else solved s)\<rparr>"
    have r: "render E s = Inr es" using Cons.prems by (simp add: render_Inr)
    have f1: "fire E (drop_event d) s = Inr ?s1"
      using fire_correct_drop[OF r Cons.prems(3) m c] d by (simp add: drop_event_def)
    have es1: "expectedSequence E ?s1 = Inr es"
      using Cons.prems(1) by (simp add: expectedSequence_def)
    show ?thesis
    proof (cases "ply s + 1 = length es")
      case True
      then have "drop (Suc (ply s)) es = []" by simp
      with rest have "ds = []" by (cases ds) auto
      then have "j = 0" using Cons.prems(5) Suc by simp
      then show ?thesis using Suc f1 True \<open>ds = []\<close> by simp
    next
      case False
      then have ns: "\<not> solved ?s1" using Cons.prems(3) by simp
      have "\<exists>s'. run E (map drop_event (take j ds)) ?s1 = Inr s' \<and> ply s' = ply ?s1 + j
           \<and> (solved s' \<longleftrightarrow> ply ?s1 + j = length es \<and> 0 < j)"
        using Cons.IH[of ?s1 j] es1 v ns rest Cons.prems(5) Suc by simp
      then obtain s' where s': "run E (map drop_event (take j ds)) ?s1 = Inr s'"
        "ply s' = ply ?s1 + j" "solved s' \<longleftrightarrow> ply ?s1 + j = length es \<and> 0 < j" by blast
      have "run E (map drop_event (take k (d # ds))) s = Inr s'"
        using Suc f1 s'(1) by simp
      moreover have "ply s' = ply s + k" using s'(2) Suc by simp
      moreover have "solved s' \<longleftrightarrow> ply s + k = length es \<and> 0 < k"
        using s'(3) Suc False by auto
      ultimately show ?thesis by blast
    qed
  qed
qed

text \<open>
  Claim C5 as stated speaks of every expected line. A drop is always played with the
  queen as promotion piece, so a line with an under-promotion cannot be submitted: in
  the knight puzzle the expected line is \<open>a8=N\<close>, the drop a7-a8 is played as \<open>a8=Q\<close>
  whatever piece the board reports, the ply index stays 0 and the puzzle is not solved.
\<close>

theorem underpromotion_line_not_solved_by_drops:
  "expectedSequence demo_engine (initial knight_puzzle) = Inr [''a8=N'']
   \<and> obj_move demo_engine (fen (initial knight_puzzle)) ''a7'' ''a8'' (Some CHR ''q'') =
       Some (''Q7/7k/8/8/8/8/8/K7 b - - 0 1'', \<lparr>san = ''a8=Q'', from_sq = ''a7'', to_sq = ''a8''\<rparr>)
   \<and> run demo_engine [PieceDrop ''a7'' ''a8'' ''wN''] (initial knight_puzzle) =
       Inr ((initial knight_puzzle)\<lparr>wrong := True\<rparr>)
   \<and> ply ((initial knight_puzzle)\<lparr>wrong := True\<rparr>) = 0
   \<and> \<not> solved ((initial knight_puzzle)\<lparr>wrong := True\<rparr>)"
  by code_simp

text \<open>
  Claim C5, as the code has it: when each move of the expected line can be made by a drop
  played with the queen as promotion piece (\<open>plays_line\<close>; in particular the line has no
  under-promotion), these drops in order take the ply index from 0 to the length of the
  line, and \<open>solved\<close> is false after every drop but the last and true after the last.
  Once solved, the board is rendered with its pieces not draggable: a further drop is no
  call of the handler, nothing changes, there is no error and no wrong flag. The handler
  itself does not test \<open>solved\<close>: called at the end of the line it accepts nothing, it
  throws on an illegal move and raises the wrong flag on a legal one.
\<close>

theorem expected_line_solves_once:
  assumes "render E s = Inr es" and "ply s = 0" and "\<not> solved s"
    and "plays_line E (fen s) es ds"
  shows "(\<forall>k\<le>length es. \<exists>s'. run E (map drop_event (take k ds)) s = Inr s' \<and> ply s' = k
            \<and> (solved s' \<longleftrightarrow> k = length es \<and> 0 < k))
       \<and> (\<forall>s' es' f t piece. solved s' \<and> render E s' = Inr es' \<longrightarrow>
            submitMove E es' s' f t piece = Inr (False, s')
            \<and> fire E (PieceDrop f t piece) s' = Inr s')
       \<and> (\<forall>s' es' f t. valid_fen E (fen s') \<and> length es' \<le> ply s' \<longrightarrow>
            onDrop E es' s' f t = Inl (InvalidMove_obj f t (Some CHR ''q''))
            \<or> onDrop E es' s' f t = Inr (False, s'\<lparr>wrong := True\<rparr>))"
proof (intro conjI allI impI)
  fix k assume "k \<le> length es"
  then have k: "k \<le> length ds" using plays_line_length[OF assms(4)] by simp
  have pl: "plays_line E (fen s) (drop (ply s) es) ds" using assms by simp
  have e: "expectedSequence E s = Inr es" and v: "valid_fen E (fen s)"
    using assms(1) by (simp_all add: render_Inr)
  from plays_line_run[OF e v assms(3) pl k] assms(2)
  show "\<exists>s'. run E (map drop_event (take k ds)) s = Inr s' \<and> ply s' = k
            \<and> (solved s' \<longleftrightarrow> k = length es \<and> 0 < k)"
    by simp
next
  fix s' es' f t piece assume "solved s' \<and> render E s' = Inr es'"
  then show "submitMove E es' s' f t piece = Inr (False, s')"
    by (simp add: submitMove_def)
next
  fix s' es' f t piece assume "solved s' \<and> render E s' = Inr es'"
  then show "fire E (PieceDrop f t piece) s' = Inr s'"
    by (simp add: fire_drop)
next
  fix s' :: session and es' :: "string list" and f t :: square
  assume a: "valid_fen E (fen s') \<and> length es' \<le> ply s'"
  then have "\<And>x. \<not> correct es' (ply s') x" by (simp add: correct_def)
  then show "onDrop E es' s' f t = Inl (InvalidMove_obj f t (Some CHR ''q''))
            \<or> onDrop E es' s' f t = Inr (False, s'\<lparr>wrong := True\<rparr>)"
    using a by (simp add: onDrop_valid split: option.splits)
qed

text \<open>
  The three plies of the pawn puzzle, dropped in order: after two the puzzle is not
  solved, after the third it is, and a further drop is refused by the board. The handler,
  called on the solved puzzle with the legal move g7-g6, would raise the wrong flag.
\<close>

theorem expected_line_solves_once_witness:
  "render demo_engine (initial pawn_puzzle) = Inr [''Kb2'', ''Kg7'', ''a8=Q'']
   \<and> ply (initial pawn_puzzle) = 0 \<and> \<not> solved (initial pawn_puzzle)
   \<and> plays_line demo_engine (fen (initial pawn_puzzle)) [''Kb2'', ''Kg7'', ''a8=Q'']
        [(''a1'', ''b2'', ''wK''), (''h7'', ''g7'', ''bK''), (''a7'', ''a8'', ''wP'')]
   \<and> (\<exists>s'. run demo_engine
              [PieceDrop ''a1'' ''b2'' ''wK'', PieceDrop ''h7'' ''g7'' ''bK''] (initial pawn_puzzle) =
              Inr s' \<and> ply s' = 2 \<and> \<not> solved s')
   \<and> (\<exists>s'. run demo_engine
              [PieceDrop ''a1'' ''b2'' ''wK'', PieceDrop ''h7'' ''g7'' ''bK'',
               PieceDrop ''a7'' ''a8'' ''wP''] (initial pawn_puzzle) =
              Inr s' \<and> ply s' = 3 \<and> solved s'
              \<and> submitMove demo_engine [''Kb2'', ''Kg7'', ''a8=Q''] s' ''g7'' ''g6'' ''bK'' =
                  Inr (False, s')
              \<and> onDrop demo_engine [''Kb2'', ''Kg7'', ''a8=Q''] s' ''g7'' ''g6'' =
                  Inr (False, s'\<lparr>wrong := True\<rparr>))"
proof -
  let ?es = "[''Kb2'', ''Kg7'', ''a8=Q'']"
  let ?ds = "[(''a1'', ''b2'', ''wK''), (''h7'', ''g7'', ''bK''), (''a7'', ''a8'', ''wP'')]"
  have h1: "render demo_engine (initial pawn_puzzle) = Inr ?es" by code_simp
  have h2: "ply (initial pawn_puzzle) = 0" by code_simp
  have h3: "\<not> solved (initial pawn_puzzle)" by code_simp
  have h4: "plays_line demo_engine (fen (initial pawn_puzzle)) ?es ?ds" by code_simp
  note t = expected_line_solves_once[OF h1 h2 h3 h4]
  note t1 = conjunct1[OF t]
  from t1[THEN spec, of 2] have "\<exists>s'. run demo_engine (map drop_event (take 2 ?ds)) (initial pawn_puzzle) = Inr s'
      \<and> ply s' = 2 \<and> (solved s' \<longleftrightarrow> 2 = length ?es \<and> 0 < (2::nat))"
    by simp
  then have a: "\<exists>s'. run demo_engine
              [PieceDrop ''a1'' ''b2'' ''wK'', PieceDrop ''h7'' ''g7'' ''bK''] (initial pawn_puzzle) =
              Inr s' \<and> ply s' = 2 \<and> \<not> solved s'"
    by (simp add: drop_event_def)
  from t1[THEN spec, of 3] have "\<exists>s'. run demo_engine (map drop_event (take 3 ?ds)) (initial pawn_puzzle) = Inr s'
      \<and> ply s' = 3 \<and> (solved s' \<longleftrightarrow> 3 = length ?es \<and> 0 < (3::nat))"
    by simp
  then obtain s' where s': "run demo_engine
              [PieceDrop ''a1'' ''b2'' ''wK'', PieceDrop ''h7'' ''g7'' ''bK'',
               PieceDrop ''a7'' ''a8'' ''wP''] (initial pawn_puzzle) = Inr s'"
      "ply s' = 3" "solved s'"
    by (auto simp add: drop_event_def)
  have x: "run demo_engine
              [PieceDrop ''a1'' ''b2'' ''wK'', PieceDrop ''h7'' ''g7'' ''bK'',
               PieceDrop ''a7'' ''a8'' ''wP''] (initial pawn_puzzle) =
            Inr ((initial pawn_puzzle)
                   \<lparr>fen := ''Q7/6k1/8/8/8/8/1K6/8 b - - 0 2'', ply := 3, solved := True,
                    coach := [\<lparr>item_ok = True, item_text = ''Kb2''\<rparr>,
                              \<lparr>item_ok = True, item_text = ''Kg7''\<rparr>,
                              \<lparr>item_ok = True, item_text = ''a8=Q''\<rparr>]\<rparr>)"
    by code_simp
  have y: "onDrop demo_engine ?es ((initial pawn_puzzle)
                   \<lparr>fen := ''Q7/6k1/8/8/8/8/1K6/8 b - - 0 2'', ply := 3, solved := True,
                    coach := [\<lparr>item_ok = True, item_text = ''Kb2''\<rparr>,
                              \<lparr>item_ok = True, item_text = ''Kg7''\<rparr>,
                              \<lparr>item_ok = True, item_text = ''a8=Q''\<rparr>]\<rparr>) ''g7'' ''g6'' =
           Inr (False, ((initial pawn_puzzle)
                   \<lparr>fen := ''Q7/6k1/8/8/8/8/1K6/8 b - - 0 2'', ply := 3, solved := True,
                    coach := [\<lparr>item_ok = True, item_text = ''Kb2''\<rparr>,
                              \<lparr>item_ok = True, item_text = ''Kg7''\<rparr>,
                              \<lparr>item_ok = True, item_text = ''a8=Q''\<rparr>]\<rparr>)\<lparr>wrong := True\<rparr>)"
    by code_simp
  have z: "onDrop demo_engine ?es s' ''g7'' ''g6'' = Inr (False, s'\<lparr>wrong := True\<rparr>)"
    using x y s'(1) by simp
  have "submitMove demo_engine ?es s' ''g7'' ''g6'' ''bK'' = Inr (False, s')"
    using s'(3) by (simp add: submitMove_def)
  with s' z have b: "\<exists>s'. run demo_engine
              [PieceDrop ''a1'' ''b2'' ''wK'', PieceDrop ''h7'' ''g7'' ''bK'',
               PieceDrop ''a7'' ''a8'' ''wP''] (initial pawn_puzzle) =
              Inr s' \<and> ply s' = 3 \<and> solved s'
              \<and> submitMove demo_engine ?es s' ''g7'' ''g6'' ''bK'' = Inr (False, s')
              \<and> onDrop demo_engine ?es s' ''g7'' ''g6'' = Inr (False, s'\<lparr>wrong := True\<rparr>)"
    by blast
  from h1 h2 h3 h4 a b show ?thesis by blast
qed

section \<open>The normalizer\<close>

lemma uci_token_coordinate_form: "uci_token t = coordinate_form t"
  by (cases t rule: uci_token.cases)
    (simp_all add: coordinate_form_def is_file_def is_rank_def is_promo_def)

lemma uci_promotion_coordinate_form:
  "coordinate_form t \<Longrightarrow> uci_promotion t = (if length t = 5 then Some (t ! 4) else None)"
proof -
  assume "coordinate_form t"
  then have "length t = 4 \<or> length t = 5" by (simp add: coordinate_form_def)
  then show ?thesis by (auto simp add: uci_promotion_def)
qed

lemma token_san_token_move:
  "token_san E ch t =
     (case token_move E (position ch) t of
        None \<Rightarrow>
          Inl (if coordinate_form t
               then InvalidMove_obj (take 2 t) (take 2 (drop 2 t))
                      (if length t = 5 then Some (t ! 4) else None)
               else InvalidSolutionMove t)
      | Some (q, mv) \<Rightarrow>
          Inr (san mv, ch\<lparr>position := q, history := (position ch, mv) # history ch\<rparr>))"
  by (auto simp add: token_san_def token_move_def chess_move_san_def chess_move_obj_def made_def
      uci_token_coordinate_form uci_promotion_coordinate_form uci_from_def uci_to_def
      split: option.splits)

lemma map_tokens_Inr:
  "map_tokens E ch ts = Inr out \<longleftrightarrow>
     length out = length ts
     \<and> (\<forall>i<length ts. \<exists>q r. reached E (position ch) (take i ts) = Some q
            \<and> token_move E q (ts ! i) = Some r \<and> out ! i = san (snd r))"
proof (induction ts arbitrary: ch out)
  case Nil
  then show ?case by auto
next
  case (Cons t ts)
  show ?case
  proof (cases "token_move E (position ch) t")
    case None
    then show ?thesis by (auto simp add: token_san_token_move)
  next
    case (Some r)
    obtain q mv where r: "r = (q, mv)" by (cases r)
    let ?ch = "ch\<lparr>position := q, history := (position ch, mv) # history ch\<rparr>"
    have step: "map_tokens E ch (t # ts) = Inr out \<longleftrightarrow>
                (\<exists>out'. out = san mv # out' \<and> map_tokens E ?ch ts = Inr out')"
      using Some r by (auto simp add: token_san_token_move split: sum.splits)
    show ?thesis
    proof
      assume "map_tokens E ch (t # ts) = Inr out"
      then obtain out' where o: "out = san mv # out'" "map_tokens E ?ch ts = Inr out'"
        using step by blast
      from o(2) Cons.IH[of ?ch out'] have ih: "length out' = length ts"
        "\<forall>i<length ts. \<exists>q' r'. reached E q (take i ts) = Some q'
            \<and> token_move E q' (ts ! i) = Some r' \<and> out' ! i = san (snd r')"
        by auto
      show "length out = length (t # ts)
     \<and> (\<forall>i<length (t # ts). \<exists>q r. reached E (position ch) (take i (t # ts)) = Some q
            \<and> token_move E q ((t # ts) ! i) = Some r \<and> out ! i = san (snd r))"
      proof (intro conjI allI impI)
        show "length out = length (t # ts)" using o ih by simp
      next
        fix i assume "i < length (t # ts)"
        show "\<exists>q r. reached E (position ch) (take i (t # ts)) = Some q
            \<and> token_move E q ((t # ts) ! i) = Some r \<and> out ! i = san (snd r)"
        proof (cases i)
          case 0
          then show ?thesis using Some r o by simp
        next
          case (Suc j)
          then have "j < length ts" using \<open>i < length (t # ts)\<close> by simp
          with ih(2) Suc Some r o show ?thesis by simp
        qed
      qed
    next
      assume a: "length out = length (t # ts)
     \<and> (\<forall>i<length (t # ts). \<exists>q r. reached E (position ch) (take i (t # ts)) = Some q
            \<and> token_move E q ((t # ts) ! i) = Some r \<and> out ! i = san (snd r))"
      then obtain x out' where o: "out = x # out'" by (cases out) auto
      from a have "\<exists>q r. reached E (position ch) (take 0 (t # ts)) = Some q
            \<and> token_move E q ((t # ts) ! 0) = Some r \<and> out ! 0 = san (snd r)"
        by blast
      then have x: "x = san mv" using Some r o by simp
      have "\<forall>i<length ts. \<exists>q' r'. reached E q (take i ts) = Some q'
            \<and> token_move E q' (ts ! i) = Some r' \<and> out' ! i = san (snd r')"
      proof (intro allI impI)
        fix i assume "i < length ts"
        then have "Suc i < length (t # ts)" by simp
        with a have "\<exists>q r. reached E (position ch) (take (Suc i) (t # ts)) = Some q
            \<and> token_move E q ((t # ts) ! Suc i) = Some r \<and> out ! Suc i = san (snd r)"
          by blast
        then show "\<exists>q' r'. reached E q (take i ts) = Some q'
            \<and> token_move E q' (ts ! i) = Some r' \<and> out' ! i = san (snd r')"
          using Some r o by simp
      qed
      moreover have "length out' = length ts" using a o by simp
      ultimately have "map_tokens E ?ch ts = Inr out'"
        using Cons.IH[of ?ch out'] by simp
      then show "map_tokens E ch (t # ts) = Inr out" using step o x by simp
    qed
  qed
qed

text \<open>
  What holds of every list: from a position the engine loads, \<^verbatim>\<open>toSanSequence\<close> succeeds
  exactly when every token denotes a move in the position reached by the tokens before
  it (as a notation string first, as a coordinate string second), and then the output
  has the length of the input and its \<open>i\<close>-th entry is the notation of the \<open>i\<close>-th
  token's move.
\<close>

lemma toSanSequence_success:
  assumes "valid_fen E p"
  shows "toSanSequence E p ts = Inr out \<longleftrightarrow>
            length out = length ts
            \<and> (\<forall>i<length ts. \<exists>q r. reached E p (take i ts) = Some q
                  \<and> token_move E q (ts ! i) = Some r \<and> out ! i = san (snd r))"
proof -
  have "toSanSequence E p ts = map_tokens E \<lparr>position = p, history = []\<rparr> ts"
    using assms by (simp add: toSanSequence_def new_Chess_def)
  then show ?thesis
    using map_tokens_Inr[of E "\<lparr>position = p, history = []\<rparr>" ts out] by simp
qed

text \<open>
  Claim C6: the normalizer reads each token as a notation string first and, only if that
  fails, as a coordinate string of four or five characters; it throws an error naming
  the offending token when neither reading gives a legal move in the position reached by
  the tokens before it; on success the output keeps the order and the length of the
  input.

  The success half holds (\<open>toSanSequence_success\<close>). The error does not: the coordinate
  move is made after the \<^verbatim>\<open>try\<close> that guards the notation reading, so when the library
  refuses it the library's own exception leaves \<^verbatim>\<open>toSanSequence\<close>, and
  \<^verbatim>\<open>throw new Error(`Invalid solution move: ${token}`)\<close>, written for this case two lines
  below, is not reached. In the position of the demo puzzle the token \<open>a1a8\<close> of the
  source's own test gives the library's error for the object \<open>{from: a1, to: a8}\<close>; a token
  that is not of the coordinate form, such as \<open>Qa8\<close>, gives the error that names it.
\<close>

theorem refused_coordinate_token_error:
  "san_move demo_engine ''7k/5Q2/7K/8/8/8/8/8 w - - 0 1'' ''a1a8'' = None
   \<and> uci_token ''a1a8''
   \<and> obj_move demo_engine ''7k/5Q2/7K/8/8/8/8/8 w - - 0 1'' ''a1'' ''a8'' None = None
   \<and> toSanSequence demo_engine ''7k/5Q2/7K/8/8/8/8/8 w - - 0 1'' [''a1a8''] =
       Inl (InvalidMove_obj ''a1'' ''a8'' None)
   \<and> toSanSequence demo_engine ''7k/5Q2/7K/8/8/8/8/8 w - - 0 1'' [''a1a8''] \<noteq>
       Inl (InvalidSolutionMove ''a1a8'')
   \<and> toSanSequence demo_engine ''7k/5Q2/7K/8/8/8/8/8 w - - 0 1'' [''Qa8''] =
       Inl (InvalidSolutionMove ''Qa8'')
   \<and> toSanSequence demo_engine ''8/P6k/8/8/8/8/8/K7 w - - 0 1'' [''Kb2'', ''h7g7'', ''a7a8n''] =
       Inr [''Kb2'', ''Kg7'', ''a8=N'']"
  by code_simp

text \<open>
  Claim C7: a notation token and a coordinate token that denote the same legal move in
  the same position normalize to the same output, the engine's notation of that move.
  The notation token denotes the move \<open>mv\<close> when the engine reads it as \<open>mv\<close>; the
  coordinate token denotes \<open>mv\<close> when it spells two squares and, if any, a promotion letter
  for which the engine makes \<open>mv\<close>. (The lenient reading of notation strings may accept the
  coordinate token itself; then it reads the same move.)
\<close>

theorem coordinate_and_notation_agree:
  assumes "valid_fen E p"
    and "san_move E p sanToken = Some (q, mv)"
    and "a \<in> set ''abcdefgh''" and "b \<in> set ''12345678''"
    and "c \<in> set ''abcdefgh''" and "d \<in> set ''12345678''"
    and "case promotion of None \<Rightarrow> True | Some x \<Rightarrow> x \<in> set ''qrbn''"
    and "obj_move E p [a, b] [c, d] promotion = Some (q, mv)"
    and "uciToken = [a, b, c, d] @ (case promotion of None \<Rightarrow> [] | Some x \<Rightarrow> [x])"
    and "san_move E p uciToken = None \<or> san_move E p uciToken = Some (q, mv)"
  shows "toSanSequence E p [uciToken] = Inr [san mv]
       \<and> toSanSequence E p [sanToken] = Inr [san mv]"
proof -
  have n: "toSanSequence E p [sanToken] = Inr [san mv]"
    using assms(1,2)
    by (simp add: toSanSequence_def new_Chess_def token_san_def chess_move_san_def made_def)
  have u: "uci_token uciToken \<and> uci_from uciToken = [a, b] \<and> uci_to uciToken = [c, d]
      \<and> uci_promotion uciToken = promotion"
    using assms(3-7,9)
    by (cases promotion)
      (simp_all add: is_file_def is_rank_def is_promo_def uci_from_def uci_to_def
        uci_promotion_def)
  have "toSanSequence E p [uciToken] = Inr [san mv]"
    using assms(10)
  proof
    assume "san_move E p uciToken = None"
    then show ?thesis
      using assms(1,8) u
      by (simp add: toSanSequence_def new_Chess_def token_san_def chess_move_san_def
          chess_move_obj_def made_def)
  next
    assume "san_move E p uciToken = Some (q, mv)"
    then show ?thesis
      using assms(1)
      by (simp add: toSanSequence_def new_Chess_def token_san_def chess_move_san_def made_def)
  qed
  with n show ?thesis by simp
qed

text \<open>
  In the position of the demo puzzle, \<open>Qg7#\<close> and \<open>f7g7\<close> both normalize to \<open>Qg7#\<close>, which
  is \<open>Qg7\<close> once the decorations are stripped; on the pawn ending, \<open>a8=N\<close> and \<open>a7a8n\<close> both
  normalize to \<open>a8=N\<close>.
\<close>

theorem coordinate_and_notation_agree_witness:
  "valid_fen demo_engine ''7k/5Q2/7K/8/8/8/8/8 w - - 0 1''
   \<and> san_move demo_engine ''7k/5Q2/7K/8/8/8/8/8 w - - 0 1'' ''Qg7#'' =
       Some (''7k/6Q1/7K/8/8/8/8/8 b - - 1 1'', \<lparr>san = ''Qg7#'', from_sq = ''f7'', to_sq = ''g7''\<rparr>)
   \<and> obj_move demo_engine ''7k/5Q2/7K/8/8/8/8/8 w - - 0 1'' ''f7'' ''g7'' None =
       Some (''7k/6Q1/7K/8/8/8/8/8 b - - 1 1'', \<lparr>san = ''Qg7#'', from_sq = ''f7'', to_sq = ''g7''\<rparr>)
   \<and> san_move demo_engine ''7k/5Q2/7K/8/8/8/8/8 w - - 0 1'' ''f7g7'' =
       Some (''7k/6Q1/7K/8/8/8/8/8 b - - 1 1'', \<lparr>san = ''Qg7#'', from_sq = ''f7'', to_sq = ''g7''\<rparr>)
   \<and> toSanSequence demo_engine ''7k/5Q2/7K/8/8/8/8/8 w - - 0 1'' [''f7g7''] = Inr [''Qg7#'']
   \<and> toSanSequence demo_engine ''7k/5Q2/7K/8/8/8/8/8 w - - 0 1'' [''Qg7#''] = Inr [''Qg7#'']
   \<and> clean ''Qg7#'' = ''Qg7''
   \<and> valid_fen demo_engine ''8/P6k/8/8/8/8/8/K7 w - - 0 1''
   \<and> san_move demo_engine ''8/P6k/8/8/8/8/8/K7 w - - 0 1'' ''a8=N'' =
       Some (''N7/7k/8/8/8/8/8/K7 b - - 0 1'', \<lparr>san = ''a8=N'', from_sq = ''a7'', to_sq = ''a8''\<rparr>)
   \<and> obj_move demo_engine ''8/P6k/8/8/8/8/8/K7 w - - 0 1'' ''a7'' ''a8'' (Some CHR ''n'') =
       Some (''N7/7k/8/8/8/8/8/K7 b - - 0 1'', \<lparr>san = ''a8=N'', from_sq = ''a7'', to_sq = ''a8''\<rparr>)
   \<and> san_move demo_engine ''8/P6k/8/8/8/8/8/K7 w - - 0 1'' ''a7a8n'' =
       Some (''N7/7k/8/8/8/8/8/K7 b - - 0 1'', \<lparr>san = ''a8=N'', from_sq = ''a7'', to_sq = ''a8''\<rparr>)
   \<and> toSanSequence demo_engine ''8/P6k/8/8/8/8/8/K7 w - - 0 1'' [''a7a8n''] = Inr [''a8=N'']
   \<and> toSanSequence demo_engine ''8/P6k/8/8/8/8/8/K7 w - - 0 1'' [''a8=N''] = Inr [''a8=N'']"
proof -
  let ?p = "''7k/5Q2/7K/8/8/8/8/8 w - - 0 1''"
  let ?r = "(''7k/6Q1/7K/8/8/8/8/8 b - - 1 1'', \<lparr>san = ''Qg7#'', from_sq = ''f7'', to_sq = ''g7''\<rparr>)"
  let ?p' = "''8/P6k/8/8/8/8/8/K7 w - - 0 1''"
  let ?r' = "(''N7/7k/8/8/8/8/8/K7 b - - 0 1'', \<lparr>san = ''a8=N'', from_sq = ''a7'', to_sq = ''a8''\<rparr>)"
  have h1: "valid_fen demo_engine ?p" by code_simp
  have h2: "san_move demo_engine ?p ''Qg7#'' = Some ?r" by code_simp
  have h3: "obj_move demo_engine ?p [CHR ''f'', CHR ''7''] [CHR ''g'', CHR ''7''] None = Some ?r"
    by code_simp
  have h4: "san_move demo_engine ?p ''f7g7'' = Some ?r" by code_simp
  have h5: "clean ''Qg7#'' = ''Qg7''" by code_simp
  have k1: "valid_fen demo_engine ?p'" by code_simp
  have k2: "san_move demo_engine ?p' ''a8=N'' = Some ?r'" by code_simp
  have k3: "obj_move demo_engine ?p' [CHR ''a'', CHR ''7''] [CHR ''a'', CHR ''8''] (Some CHR ''n'') =
      Some ?r'" by code_simp
  have k4: "san_move demo_engine ?p' ''a7a8n'' = Some ?r'" by code_simp
  have a: "toSanSequence demo_engine ?p [''f7g7''] = Inr [''Qg7#'']
       \<and> toSanSequence demo_engine ?p [''Qg7#''] = Inr [''Qg7#'']"
    using coordinate_and_notation_agree[OF h1 h2 _ _ _ _ _ h3, of "''f7g7''"] h4 by simp
  have b: "toSanSequence demo_engine ?p' [''a7a8n''] = Inr [''a8=N'']
       \<and> toSanSequence demo_engine ?p' [''a8=N''] = Inr [''a8=N'']"
    using coordinate_and_notation_agree[OF k1 k2 _ _ _ _ _ k3, of "''a7a8n''"] k4 by simp
  from h1 h2 h3 h4 h5 k1 k2 k3 k4 a b show ?thesis by simp
qed

section \<open>The coach move\<close>

text \<open>
  Claim C8 as stated gives the coach move the effect of a drop of the expected move's
  squares. For an under-promotion there is no such drop: in the knight puzzle the coach
  button plays \<open>a8=N\<close> (from a7 to a8) and solves the puzzle, while the drop a7-a8 is
  played as \<open>a8=Q\<close>, changes neither position nor ply index and raises the wrong flag.
\<close>

theorem coach_plays_underpromotion_drop_cannot:
  "san_move demo_engine (fen (initial knight_puzzle)) ''a8=N'' =
     Some (''N7/7k/8/8/8/8/8/K7 b - - 0 1'', \<lparr>san = ''a8=N'', from_sq = ''a7'', to_sq = ''a8''\<rparr>)
   \<and> coachButton demo_engine [''a8=N''] (initial knight_puzzle) =
       Inr ((initial knight_puzzle)
              \<lparr>fen := ''N7/7k/8/8/8/8/8/K7 b - - 0 1'', ply := 1, solved := True,
               coach := [\<lparr>item_ok = True, item_text = ''a8=N''\<rparr>]\<rparr>)
   \<and> submitMove demo_engine [''a8=N''] (initial knight_puzzle) ''a7'' ''a8'' ''wN'' =
       Inr (False, (initial knight_puzzle)\<lparr>wrong := True\<rparr>)"
  by code_simp

text \<open>
  Claim C8, as the code has it: with the puzzle solved the coach button does nothing (it
  is disabled, and the handler itself returns at once when the ply index has reached the
  end of the line, as it has in every solved state that can be reached). Otherwise, when
  the expected move is one that a drop can make (the engine reads it as the move \<open>mv\<close>,
  and a drop from \<open>mv\<close>'s source square to its target square, played with the queen as
  promotion piece, is \<open>mv\<close> and matches; this excludes an under-promotion), the button
  and the drop give the same position, ply index, log entry and solved flag: the position
  after \<open>mv\<close>, the ply index plus one, one more correct log entry (the coach note of the
  ply if there is a non-empty one, the notation of \<open>mv\<close> otherwise) and \<open>solved\<close> raised at
  the last ply. They differ in the hint arrows only, which the drop clears.
\<close>

theorem coachButton_as_submitMove:
  "(solved s \<longrightarrow> coachButton E es s = Inr s)
   \<and> (length es \<le> ply s \<longrightarrow> playExpectedMove E es s = Inr s)
   \<and> (\<not> solved s \<and> valid_fen E (fen s) \<and> ply s < length es
        \<and> san_move E (fen s) (es ! ply s) = Some (q, mv)
        \<and> obj_move E (fen s) (from_sq mv) (to_sq mv) (Some CHR ''q'') = Some (q, mv)
        \<and> es ! ply s \<noteq> [] \<and> clean (es ! ply s) = clean (san mv) \<longrightarrow>
          coachButton E es s =
            Inr (s\<lparr>fen := q, ply := ply s + 1,
                   coach := coach s @
                     [\<lparr>item_ok = True,
                       item_text =
                         (case pz_coachNotes (puzzle s) of
                            None \<Rightarrow> san mv
                          | Some notes \<Rightarrow>
                              (if ply s < length notes \<and> notes ! ply s \<noteq> []
                               then notes ! ply s else san mv))\<rparr>],
                   solved := (if ply s + 1 = length es then True else solved s)\<rparr>)
          \<and> submitMove E es s (from_sq mv) (to_sq mv) piece =
            Inr (True,
                 s\<lparr>fen := q, ply := ply s + 1,
                   coach := coach s @
                     [\<lparr>item_ok = True,
                       item_text =
                         (case pz_coachNotes (puzzle s) of
                            None \<Rightarrow> san mv
                          | Some notes \<Rightarrow>
                              (if ply s < length notes \<and> notes ! ply s \<noteq> []
                               then notes ! ply s else san mv))\<rparr>],
                   arrows := [],
                   solved := (if ply s + 1 = length es then True else solved s)\<rparr>))"
proof (intro conjI impI)
  assume "solved s"
  then show "coachButton E es s = Inr s" by (simp add: coachButton_def)
next
  assume "length es \<le> ply s"
  then show "playExpectedMove E es s = Inr s" by (simp add: playExpectedMove_def)
next
  assume "\<not> solved s \<and> valid_fen E (fen s) \<and> ply s < length es
        \<and> san_move E (fen s) (es ! ply s) = Some (q, mv)
        \<and> obj_move E (fen s) (from_sq mv) (to_sq mv) (Some CHR ''q'') = Some (q, mv)
        \<and> es ! ply s \<noteq> [] \<and> clean (es ! ply s) = clean (san mv)"
  then show "coachButton E es s =
            Inr (s\<lparr>fen := q, ply := ply s + 1,
                   coach := coach s @
                     [\<lparr>item_ok = True,
                       item_text =
                         (case pz_coachNotes (puzzle s) of
                            None \<Rightarrow> san mv
                          | Some notes \<Rightarrow>
                              (if ply s < length notes \<and> notes ! ply s \<noteq> []
                               then notes ! ply s else san mv))\<rparr>],
                   solved := (if ply s + 1 = length es then True else solved s)\<rparr>)"
    by (simp add: coachButton_def playExpectedMove_valid note_or_def)
next
  assume "\<not> solved s \<and> valid_fen E (fen s) \<and> ply s < length es
        \<and> san_move E (fen s) (es ! ply s) = Some (q, mv)
        \<and> obj_move E (fen s) (from_sq mv) (to_sq mv) (Some CHR ''q'') = Some (q, mv)
        \<and> es ! ply s \<noteq> [] \<and> clean (es ! ply s) = clean (san mv)"
  then show "submitMove E es s (from_sq mv) (to_sq mv) piece =
            Inr (True,
                 s\<lparr>fen := q, ply := ply s + 1,
                   coach := coach s @
                     [\<lparr>item_ok = True,
                       item_text =
                         (case pz_coachNotes (puzzle s) of
                            None \<Rightarrow> san mv
                          | Some notes \<Rightarrow>
                              (if ply s < length notes \<and> notes ! ply s \<noteq> []
                               then notes ! ply s else san mv))\<rparr>],
                   arrows := [],
                   solved := (if ply s + 1 = length es then True else solved s)\<rparr>)"
    by (simp add: submitMove_def onDrop_valid correct_def note_or_def)
qed

text \<open>
  On the solved demo puzzle the coach button changes nothing; at the start of the pawn
  puzzle the button and the drop a1-b2 give the same state.
\<close>

theorem coachButton_as_submitMove_witness:
  "coachButton demo_engine [''Qg7#'']
      ((initial DEFAULT_PUZZLE)\<lparr>fen := ''7k/6Q1/7K/8/8/8/8/8 b - - 1 1'', ply := 1,
         solved := True\<rparr>) =
     Inr ((initial DEFAULT_PUZZLE)\<lparr>fen := ''7k/6Q1/7K/8/8/8/8/8 b - - 1 1'', ply := 1,
         solved := True\<rparr>)
   \<and> playExpectedMove demo_engine [''Qg7#'']
      ((initial DEFAULT_PUZZLE)\<lparr>fen := ''7k/6Q1/7K/8/8/8/8/8 b - - 1 1'', ply := 1,
         solved := True\<rparr>) =
     Inr ((initial DEFAULT_PUZZLE)\<lparr>fen := ''7k/6Q1/7K/8/8/8/8/8 b - - 1 1'', ply := 1,
         solved := True\<rparr>)
   \<and> coachButton demo_engine [''Kb2'', ''Kg7'', ''a8=Q''] (initial pawn_puzzle) =
       Inr ((initial pawn_puzzle)\<lparr>fen := ''8/P6k/8/8/8/8/1K6/8 b - - 1 1'', ply := 1,
              coach := [\<lparr>item_ok = True, item_text = ''Kb2''\<rparr>]\<rparr>)
   \<and> submitMove demo_engine [''Kb2'', ''Kg7'', ''a8=Q''] (initial pawn_puzzle) ''a1'' ''b2'' ''wK'' =
       Inr (True, (initial pawn_puzzle)\<lparr>fen := ''8/P6k/8/8/8/8/1K6/8 b - - 1 1'', ply := 1,
              coach := [\<lparr>item_ok = True, item_text = ''Kb2''\<rparr>]\<rparr>)"
proof -
  let ?s = "(initial DEFAULT_PUZZLE)\<lparr>fen := ''7k/6Q1/7K/8/8/8/8/8 b - - 1 1'', ply := 1,
         solved := True\<rparr>"
  let ?mv = "\<lparr>san = ''Kb2'', from_sq = ''a1'', to_sq = ''b2''\<rparr>"
  let ?es = "[''Kb2'', ''Kg7'', ''a8=Q'']"
  have "solved ?s" by simp
  with coachButton_as_submitMove[of ?s demo_engine "[''Qg7#'']"]
  have a: "coachButton demo_engine [''Qg7#''] ?s = Inr ?s" by blast
  have "length [''Qg7#''] \<le> ply ?s" by simp
  with coachButton_as_submitMove[of ?s demo_engine "[''Qg7#'']"]
  have a': "playExpectedMove demo_engine [''Qg7#''] ?s = Inr ?s" by blast
  have h: "\<not> solved (initial pawn_puzzle) \<and> valid_fen demo_engine (fen (initial pawn_puzzle))
        \<and> ply (initial pawn_puzzle) < length ?es
        \<and> san_move demo_engine (fen (initial pawn_puzzle)) (?es ! ply (initial pawn_puzzle)) =
            Some (''8/P6k/8/8/8/8/1K6/8 b - - 1 1'', ?mv)
        \<and> obj_move demo_engine (fen (initial pawn_puzzle)) (from_sq ?mv) (to_sq ?mv)
            (Some CHR ''q'') = Some (''8/P6k/8/8/8/8/1K6/8 b - - 1 1'', ?mv)
        \<and> ?es ! ply (initial pawn_puzzle) \<noteq> []
        \<and> clean (?es ! ply (initial pawn_puzzle)) = clean (san ?mv)"
    by code_simp
  note t = coachButton_as_submitMove[of "initial pawn_puzzle" demo_engine ?es
      "''8/P6k/8/8/8/8/1K6/8 b - - 1 1''" ?mv "''wK''"]
  have b: "coachButton demo_engine ?es (initial pawn_puzzle) =
       Inr ((initial pawn_puzzle)\<lparr>fen := ''8/P6k/8/8/8/8/1K6/8 b - - 1 1'', ply := 1,
              coach := [\<lparr>item_ok = True, item_text = ''Kb2''\<rparr>]\<rparr>)"
    using t h by (simp add: initial_def pawn_puzzle_def)
  have c: "submitMove demo_engine ?es (initial pawn_puzzle) ''a1'' ''b2'' ''wK'' =
       Inr (True, (initial pawn_puzzle)\<lparr>fen := ''8/P6k/8/8/8/8/1K6/8 b - - 1 1'', ply := 1,
              coach := [\<lparr>item_ok = True, item_text = ''Kb2''\<rparr>]\<rparr>)"
    using t h by (simp add: initial_def pawn_puzzle_def)
  from a a' b c show ?thesis by blast
qed

section \<open>Invariants of the reachable states\<close>

lemma progress_inv_fresh:
  "ply s = 0 \<Longrightarrow> coach s = [] \<Longrightarrow> \<not> solved s \<Longrightarrow> progress_inv E s"
  by (auto simp add: progress_inv_def split: sum.splits)

lemma onLoad_fresh:
  "onLoad E s f = (a, s') \<Longrightarrow> s' = s \<or> (ply s' = 0 \<and> coach s' = [] \<and> \<not> solved s'
      \<and> fen s' = pz_fen (puzzle s'))"
  by (auto simp add: onLoad_def split: sum.splits)

lemma onLoadSolution_fresh:
  "onLoadSolution E pz s seq = (a, s') \<Longrightarrow>
     s' = s \<or> (ply s' = 0 \<and> coach s' = [] \<and> \<not> solved s' \<and> fen s' = fen s
        \<and> pz_fen (puzzle s') = pz_fen (puzzle s))"
  by (auto simp add: onLoadSolution_def split: sum.splits)

lemma loadDemo_fresh:
  "loadDemo E s = (a, s') \<Longrightarrow>
     s' = s \<or> (ply s' = 0 \<and> coach s' = [] \<and> \<not> solved s')"
  by (auto simp add: loadDemo_def onLoad_def onLoadSolution_def split: sum.splits)

lemma loadDemo_position:
  "valid_fen E (pz_fen DEFAULT_PUZZLE) \<Longrightarrow> loadDemo E s = (a, s') \<Longrightarrow>
     ply s' = 0 \<and> fen s' = pz_fen (puzzle s')"
  by (auto simp add: loadDemo_def onLoad_def onLoadSolution_def new_Chess_def split: sum.splits)

lemma fire_renders: "fire E ev s = Inr s' \<Longrightarrow> \<exists>es. render E s = Inr es"
  by (auto simp add: fire_def split: sum.splits)

lemma fire_progress_inv:
  assumes "progress_inv E s" and "fire E ev s = Inr s'"
  shows "progress_inv E s'"
proof -
  from fire_renders[OF assms(2)] obtain es where r: "render E s = Inr es" by blast
  then have es: "expectedSequence E s = Inr es" and v: "valid_fen E (fen s)"
    by (simp_all add: render_Inr)
  have inv: "ply s = length (filter item_ok (coach s))" "list_all item_ok (coach s)"
    "ply s \<le> length es" "solved s \<longleftrightarrow> ply s = length es \<and> es \<noteq> []"
    using assms(1) es by (simp_all add: progress_inv_def)
  have same: "\<And>s1. puzzle s1 = puzzle s \<Longrightarrow> expectedSequence E s1 = Inr es"
    using es by (simp add: expectedSequence_def)
  show ?thesis
  proof (cases ev)
    case (PieceDrop f t piece)
    then show ?thesis
      using assms fire_drop[OF r, of f t piece] inv same
      by (auto simp add: progress_inv_def correct_def split: if_splits option.splits)
  next
    case UndoClick
    then show ?thesis using assms fire_undo[OF r] by simp
  next
    case ResetClick
    then have "s' = reset s" using assms(2) r by (simp add: fire_def)
    then show ?thesis by (simp add: progress_inv_fresh reset_def)
  next
    case HintClick
    then show ?thesis
      using assms fire_hint[OF r] inv same
      by (auto simp add: progress_inv_def split: if_splits option.splits)
  next
    case CoachClick
    then show ?thesis
      using assms fire_coach[OF r] inv same
      by (auto simp add: progress_inv_def split: if_splits option.splits)
  next
    case (LoadFenClick f)
    then have "s' = s \<or> s' = snd (onLoad E s f)"
      using assms(2) r by (auto simp add: fire_def split: if_splits)
    then show ?thesis
      using assms(1) onLoad_fresh[of E s f "fst (onLoad E s f)" "snd (onLoad E s f)"]
      by (auto simp add: progress_inv_fresh)
  next
    case (LoadSolutionClick seq)
    then have "s' = snd (onLoadSolution E (puzzle s) s seq)"
      using assms(2) r by (simp add: fire_def)
    then show ?thesis
      using assms(1) onLoadSolution_fresh[of E "puzzle s" s seq
          "fst (onLoadSolution E (puzzle s) s seq)" "snd (onLoadSolution E (puzzle s) s seq)"]
      by (auto simp add: progress_inv_fresh)
  next
    case LoadDemoClick
    then have "s' = snd (loadDemo E s)" using assms(2) r by (simp add: fire_def)
    then show ?thesis
      using assms(1) loadDemo_fresh[of E s "fst (loadDemo E s)" "snd (loadDemo E s)"]
      by (auto simp add: progress_inv_fresh)
  next
    case WrongTimeout
    then have "s' = wrong_timeout s" using assms(2) r by (simp add: fire_def)
    then show ?thesis using inv same
      by (simp add: wrong_timeout_def progress_inv_def)
  qed
qed

lemma run_progress_inv:
  "progress_inv E s \<Longrightarrow> run E evs s = Inr s' \<Longrightarrow> progress_inv E s'"
proof (induction evs arbitrary: s)
  case Nil
  then show ?case by simp
next
  case (Cons ev evs)
  then show ?case by (auto split: sum.splits dest: fire_progress_inv)
qed

lemma position_inv_start:
  "ply s = 0 \<Longrightarrow> fen s = pz_fen (puzzle s) \<Longrightarrow> position_inv E s"
  by (auto simp add: position_inv_def at_start split: sum.splits)

lemma line_reach_next:
  assumes "line_reach E p0 (take k es) p" and "k < length es" and "applies E p (es ! k) q"
  shows "line_reach E p0 (take (Suc k) es) q"
  using after_move[OF assms(1,3)] assms(2) by (simp add: take_Suc_conv_app_nth)

lemma onLoadSolution_at_start:
  assumes "fen s = pz_fen (puzzle s) \<or> isl (toSanSequence E (pz_fen (puzzle s)) seq)"
  shows "snd (onLoadSolution E (puzzle s) s seq) = s
       \<or> (ply (snd (onLoadSolution E (puzzle s) s seq)) = 0
          \<and> fen (snd (onLoadSolution E (puzzle s) s seq)) =
              pz_fen (puzzle (snd (onLoadSolution E (puzzle s) s seq))))"
  using assms by (auto simp add: onLoadSolution_def split: sum.splits)

lemma fire_position_inv:
  assumes "position_inv E s" and "progress_inv E s" and "fire E ev s = Inr s'"
    and "case ev of
           LoadSolutionClick seq \<Rightarrow>
             fen s = pz_fen (puzzle s) \<or> isl (toSanSequence E (pz_fen (puzzle s)) seq)
         | _ \<Rightarrow> True"
    and "valid_fen E (pz_fen DEFAULT_PUZZLE)"
  shows "position_inv E s'"
proof -
  from fire_renders[OF assms(3)] obtain es where r: "render E s = Inr es" by blast
  then have es: "expectedSequence E s = Inr es" and v: "valid_fen E (fen s)"
    by (simp_all add: render_Inr)
  have inv: "line_reach E (pz_fen (puzzle s)) (take (ply s) es) (fen s)"
    using assms(1) es by (simp add: position_inv_def)
  have same: "\<And>s1. puzzle s1 = puzzle s \<Longrightarrow> expectedSequence E s1 = Inr es"
    using es by (simp add: expectedSequence_def)
  have keep: "\<And>s1. puzzle s1 = puzzle s \<Longrightarrow> ply s1 = ply s \<Longrightarrow> fen s1 = fen s \<Longrightarrow>
      position_inv E s1"
    using inv same by (simp add: position_inv_def)
  have move: "\<And>s1 q. puzzle s1 = puzzle s \<Longrightarrow> ply s1 = Suc (ply s) \<Longrightarrow> fen s1 = q \<Longrightarrow>
      ply s < length es \<Longrightarrow> applies E (fen s) (es ! ply s) q \<Longrightarrow> position_inv E s1"
    using line_reach_next[OF inv] same by (simp add: position_inv_def)
  show ?thesis
  proof (cases ev)
    case (PieceDrop f t piece)
    note d = fire_drop[OF r, of f t piece]
    show ?thesis
    proof (cases "solved s")
      case True
      then show ?thesis using d assms(1,3) PieceDrop by simp
    next
      case False
      show ?thesis
      proof (cases "obj_move E (fen s) f t (Some CHR ''q'')")
        case None
        then show ?thesis using d False assms(1,3) PieceDrop by simp
      next
        case (Some a)
        obtain q mv where a: "a = (q, mv)" by (cases a)
        show ?thesis
        proof (cases "correct es (ply s) (san mv)")
          case True
          then have "applies E (fen s) (es ! ply s) q" and "ply s < length es"
            using Some a by (auto simp add: correct_def intro: by_drop)
          then show ?thesis
            using d False Some a True assms(3) PieceDrop by (auto intro!: move)
        next
          case no: False
          then show ?thesis
            using d False Some a assms(3) PieceDrop by (auto intro!: keep)
        qed
      qed
    qed
  next
    case UndoClick
    then show ?thesis using assms fire_undo[OF r] by simp
  next
    case ResetClick
    then have "s' = reset s" using assms(3) r by (simp add: fire_def)
    then show ?thesis by (simp add: position_inv_start reset_def)
  next
    case HintClick
    then show ?thesis
      using assms(1,3) fire_hint[OF r]
      by (auto split: if_splits option.splits intro!: keep)
  next
    case CoachClick
    note c = fire_coach[OF r]
    show ?thesis
    proof (cases "solved s \<or> length es \<le> ply s")
      case True
      then show ?thesis using c assms(1,3) CoachClick by auto
    next
      case False
      show ?thesis
      proof (cases "san_move E (fen s) (es ! ply s)")
        case None
        then show ?thesis using c False assms(1,3) CoachClick by auto
      next
        case (Some a)
        obtain q mv where a: "a = (q, mv)" by (cases a)
        have "applies E (fen s) (es ! ply s) q" using Some a by (auto intro: by_notation)
        then show ?thesis using c False Some a assms(3) CoachClick by (auto intro!: move)
      qed
    qed
  next
    case (LoadFenClick f)
    then have "s' = s \<or> s' = snd (onLoad E s f)"
      using assms(3) r by (auto simp add: fire_def split: if_splits)
    then show ?thesis
      using assms(1) onLoad_fresh[of E s f "fst (onLoad E s f)" "snd (onLoad E s f)"]
      by (auto simp add: position_inv_start)
  next
    case (LoadSolutionClick seq)
    then have s': "s' = snd (onLoadSolution E (puzzle s) s seq)"
      using assms(3) r by (simp add: fire_def)
    have "fen s = pz_fen (puzzle s) \<or> isl (toSanSequence E (pz_fen (puzzle s)) seq)"
      using assms(4) LoadSolutionClick by simp
    from onLoadSolution_at_start[OF this] show ?thesis
      using s' assms(1) by (auto simp add: position_inv_start)
  next
    case LoadDemoClick
    then have s': "s' = snd (loadDemo E s)" using assms(3) r by (simp add: fire_def)
    have "ply s' = 0 \<and> fen s' = pz_fen (puzzle s')"
      using loadDemo_position[OF assms(5), of s "fst (loadDemo E s)" "snd (loadDemo E s)"] s'
      by simp
    then show ?thesis by (simp add: position_inv_start)
  next
    case WrongTimeout
    then have "s' = wrong_timeout s" using assms(3) r by (simp add: fire_def)
    then show ?thesis by (simp add: wrong_timeout_def keep)
  qed
qed

lemma run_position_inv:
  "position_inv E s \<Longrightarrow> progress_inv E s \<Longrightarrow> run E evs s = Inr s' \<Longrightarrow>
   loads_at_start E evs s \<Longrightarrow> valid_fen E (pz_fen DEFAULT_PUZZLE) \<Longrightarrow>
   position_inv E s'"
proof (induction evs arbitrary: s)
  case Nil
  then show ?case by simp
next
  case (Cons ev evs)
  from Cons.prems(3) obtain s1 where s1: "fire E ev s = Inr s1" "run E evs s1 = Inr s'"
    by (auto split: sum.splits)
  have here: "case ev of
           LoadSolutionClick seq \<Rightarrow>
             fen s = pz_fen (puzzle s) \<or> isl (toSanSequence E (pz_fen (puzzle s)) seq)
         | _ \<Rightarrow> True"
    and later: "loads_at_start E evs s1"
    using Cons.prems(4) s1(1) by simp_all
  have "position_inv E s1"
    using fire_position_inv[OF Cons.prems(1,2) s1(1) here Cons.prems(5)] .
  moreover have "progress_inv E s1" using fire_progress_inv[OF Cons.prems(2) s1(1)] .
  ultimately show ?case using Cons.IH[of s1] s1(2) later Cons.prems(5) by simp
qed

text \<open>
  Claim C9 as stated fails in two ways. Loading an empty solution list gives a state
  whose ply index is the length of the line, and which is not solved. Loading a solution
  list after a correct move resets the ply index and leaves the board where it was, so
  the position is not the start position with no move applied.
\<close>

theorem solved_and_position_counterexample:
  "run demo_engine [LoadSolutionClick []] (initial DEFAULT_PUZZLE) =
     Inr ((initial DEFAULT_PUZZLE)\<lparr>puzzle := DEFAULT_PUZZLE\<lparr>pz_solution := []\<rparr>\<rparr>)
   \<and> expectedSequence demo_engine
        ((initial DEFAULT_PUZZLE)\<lparr>puzzle := DEFAULT_PUZZLE\<lparr>pz_solution := []\<rparr>\<rparr>) = Inr []
   \<and> ply ((initial DEFAULT_PUZZLE)\<lparr>puzzle := DEFAULT_PUZZLE\<lparr>pz_solution := []\<rparr>\<rparr>) = length ([] :: string list)
   \<and> \<not> solved ((initial DEFAULT_PUZZLE)\<lparr>puzzle := DEFAULT_PUZZLE\<lparr>pz_solution := []\<rparr>\<rparr>)
   \<and> run demo_engine [PieceDrop ''a1'' ''b2'' ''wK'', LoadSolutionClick [''Kb2'']]
        (initial pawn_puzzle) =
     Inr ((initial pawn_puzzle)
            \<lparr>puzzle := pawn_puzzle\<lparr>pz_solution := [''Kb2'']\<rparr>,
             fen := ''8/P6k/8/8/8/8/1K6/8 b - - 1 1''\<rparr>)
   \<and> ply ((initial pawn_puzzle)
            \<lparr>puzzle := pawn_puzzle\<lparr>pz_solution := [''Kb2'']\<rparr>,
             fen := ''8/P6k/8/8/8/8/1K6/8 b - - 1 1''\<rparr>) = 0
   \<and> pz_fen (puzzle ((initial pawn_puzzle)
            \<lparr>puzzle := pawn_puzzle\<lparr>pz_solution := [''Kb2'']\<rparr>,
             fen := ''8/P6k/8/8/8/8/1K6/8 b - - 1 1''\<rparr>)) = ''8/P6k/8/8/8/8/8/K7 w - - 0 1''
   \<and> fen ((initial pawn_puzzle)
            \<lparr>puzzle := pawn_puzzle\<lparr>pz_solution := [''Kb2'']\<rparr>,
             fen := ''8/P6k/8/8/8/8/1K6/8 b - - 1 1''\<rparr>) \<noteq> ''8/P6k/8/8/8/8/8/K7 w - - 0 1''"
  by code_simp

text \<open>
  Claim C9, as the code has it: in every state reached from a first render by any
  sequence of events, if the expected line can be computed then the ply index is the
  number of correct entries of the log (and every entry is correct), it is at most the
  length of the line, and \<open>solved\<close> holds exactly when the ply index is the length of the
  line and the line is not empty. If every solution list submitted on the way was
  refused or was submitted while the board showed the start position
  (\<open>loads_at_start\<close>), and the engine loads the position of the demo puzzle as chess.js
  does, then the current position is the start position with the first \<open>ply\<close> moves of
  the line applied in order.
\<close>

theorem reachable_invariant:
  assumes "run E evs (initial cfg) = Inr s" and "expectedSequence E s = Inr es"
  shows "ply s = length (filter item_ok (coach s)) \<and> list_all item_ok (coach s)
       \<and> ply s \<le> length es
       \<and> (solved s \<longleftrightarrow> ply s = length es \<and> es \<noteq> [])
       \<and> (loads_at_start E evs (initial cfg) \<and> valid_fen E (pz_fen DEFAULT_PUZZLE) \<longrightarrow>
            line_reach E (pz_fen (puzzle s)) (take (ply s) es) (fen s))"
proof -
  have p0: "progress_inv E (initial cfg)" by (simp add: progress_inv_fresh initial_def)
  have q0: "position_inv E (initial cfg)" by (simp add: position_inv_start initial_def)
  have "progress_inv E s" using run_progress_inv[OF p0 assms(1)] .
  moreover have "loads_at_start E evs (initial cfg) \<and> valid_fen E (pz_fen DEFAULT_PUZZLE)
      \<longrightarrow> position_inv E s"
    using run_position_inv[OF q0 p0 assms(1)] by blast
  ultimately show ?thesis using assms(2) by (simp add: progress_inv_def position_inv_def)
qed

text \<open>
  A session on the demo position with an empty line: the pawn ending is loaded and, the
  board at its start position, the line of the pawn puzzle; then a correct drop, a coach
  move, a hint, the timer and an illegal drop. Two plies are played, the log has two
  entries, the puzzle is not solved, and the position is the start position after \<open>Kb2\<close>
  and \<open>Kg7\<close>.
\<close>

theorem reachable_invariant_witness:
  "run demo_engine
      [LoadFenClick ''8/P6k/8/8/8/8/8/K7 w - - 0 1'',
       LoadSolutionClick [''Kb2'', ''h7g7'', ''a8=Q''],
       PieceDrop ''a1'' ''b2'' ''wK'', CoachClick, HintClick, WrongTimeout,
       PieceDrop ''a7'' ''a1'' ''wP'']
      (initial (DEFAULT_PUZZLE\<lparr>pz_solution := [], pz_coachNotes := None\<rparr>)) =
     Inr \<lparr>puzzle = DEFAULT_PUZZLE
            \<lparr>pz_fen := ''8/P6k/8/8/8/8/8/K7 w - - 0 1'',
             pz_solution := [''Kb2'', ''h7g7'', ''a8=Q''], pz_coachNotes := None\<rparr>,
          fen = ''8/P5k1/8/8/8/8/1K6/8 w - - 2 2'', ply = 2, wrong = False,
          arrows = [(''a7'', ''a8'')], solved = False,
          coach = [\<lparr>item_ok = True, item_text = ''Kb2''\<rparr>,
                   \<lparr>item_ok = True, item_text = ''Kg7''\<rparr>]\<rparr>
   \<and> expectedSequence demo_engine
        \<lparr>puzzle = DEFAULT_PUZZLE
            \<lparr>pz_fen := ''8/P6k/8/8/8/8/8/K7 w - - 0 1'',
             pz_solution := [''Kb2'', ''h7g7'', ''a8=Q''], pz_coachNotes := None\<rparr>,
          fen = ''8/P5k1/8/8/8/8/1K6/8 w - - 2 2'', ply = 2, wrong = False,
          arrows = [(''a7'', ''a8'')], solved = False,
          coach = [\<lparr>item_ok = True, item_text = ''Kb2''\<rparr>,
                   \<lparr>item_ok = True, item_text = ''Kg7''\<rparr>]\<rparr> =
       Inr [''Kb2'', ''Kg7'', ''a8=Q'']
   \<and> loads_at_start demo_engine
        [LoadFenClick ''8/P6k/8/8/8/8/8/K7 w - - 0 1'',
         LoadSolutionClick [''Kb2'', ''h7g7'', ''a8=Q''],
         PieceDrop ''a1'' ''b2'' ''wK'', CoachClick, HintClick, WrongTimeout,
         PieceDrop ''a7'' ''a1'' ''wP'']
        (initial (DEFAULT_PUZZLE\<lparr>pz_solution := [], pz_coachNotes := None\<rparr>))
   \<and> valid_fen demo_engine (pz_fen DEFAULT_PUZZLE)
   \<and> line_reach demo_engine ''8/P6k/8/8/8/8/8/K7 w - - 0 1'' [''Kb2'', ''Kg7'']
        ''8/P5k1/8/8/8/8/1K6/8 w - - 2 2''"
proof -
  let ?s = "\<lparr>puzzle = DEFAULT_PUZZLE
            \<lparr>pz_fen := ''8/P6k/8/8/8/8/8/K7 w - - 0 1'',
             pz_solution := [''Kb2'', ''h7g7'', ''a8=Q''], pz_coachNotes := None\<rparr>,
          fen = ''8/P5k1/8/8/8/8/1K6/8 w - - 2 2'', ply = 2, wrong = False,
          arrows = [(''a7'', ''a8'')], solved = False,
          coach = [\<lparr>item_ok = True, item_text = ''Kb2''\<rparr>,
                   \<lparr>item_ok = True, item_text = ''Kg7''\<rparr>]\<rparr>"
  let ?evs = "[LoadFenClick ''8/P6k/8/8/8/8/8/K7 w - - 0 1'',
       LoadSolutionClick [''Kb2'', ''h7g7'', ''a8=Q''],
       PieceDrop ''a1'' ''b2'' ''wK'', CoachClick, HintClick, WrongTimeout,
       PieceDrop ''a7'' ''a1'' ''wP'']"
  let ?start = "initial (DEFAULT_PUZZLE\<lparr>pz_solution := [], pz_coachNotes := None\<rparr>)"
  have h1: "run demo_engine ?evs ?start = Inr ?s" by code_simp
  have h2: "expectedSequence demo_engine ?s = Inr [''Kb2'', ''Kg7'', ''a8=Q'']" by code_simp
  have h3: "loads_at_start demo_engine ?evs ?start" by code_simp
  have h4: "valid_fen demo_engine (pz_fen DEFAULT_PUZZLE)" by code_simp
  from reachable_invariant[OF h1 h2] h3 h4
  have "line_reach demo_engine (pz_fen (puzzle ?s)) (take (ply ?s) [''Kb2'', ''Kg7'', ''a8=Q''])
      (fen ?s)" by blast
  then have "line_reach demo_engine ''8/P6k/8/8/8/8/8/K7 w - - 0 1'' [''Kb2'', ''Kg7'']
      ''8/P5k1/8/8/8/8/1K6/8 w - - 2 2''"
    by (simp add: DEFAULT_PUZZLE_def)
  with h1 h2 h3 h4 show ?thesis by blast
qed

section \<open>Promotion\<close>

lemma promotion_letter_clean:
  "clean a = clean b \<Longrightarrow> promotion_letter a = promotion_letter b"
  by (simp add: promotion_letter_def)

lemma fire_ply_grows:
  assumes "render E s = Inr es" and "fire E ev s = Inr s'" and "ply s < ply s'"
    and "\<forall>f t piece. \<exists>s1. fire E (PieceDrop f t piece) s = Inr s1 \<and> ply s1 = ply s"
  shows "ev = CoachClick"
proof (cases ev)
  case (PieceDrop f t piece)
  obtain s1 where "fire E (PieceDrop f t piece) s = Inr s1" "ply s1 = ply s"
    using assms(4) by blast
  then show ?thesis using assms(2,3) PieceDrop by simp
next
  case UndoClick
  then show ?thesis using assms fire_undo[OF assms(1)] by simp
next
  case ResetClick
  then show ?thesis using assms by (auto simp add: fire_def reset_def)
next
  case HintClick
  then show ?thesis using assms fire_hint[OF assms(1)]
    by (auto split: if_splits option.splits)
next
  case CoachClick
  then show ?thesis by simp
next
  case (LoadFenClick f)
  then show ?thesis using assms
    by (auto simp add: fire_def onLoad_def split: if_splits sum.splits)
next
  case (LoadSolutionClick seq)
  then show ?thesis using assms
    by (auto simp add: fire_def onLoadSolution_def split: if_splits sum.splits)
next
  case LoadDemoClick
  then show ?thesis using assms
    by (auto simp add: fire_def loadDemo_def onLoad_def onLoadSolution_def
        split: if_splits sum.splits)
next
  case WrongTimeout
  then show ?thesis using assms by (auto simp add: fire_def wrong_timeout_def)
qed

text \<open>
  Claim C10: a drop is always played with a queen as the promotion piece, whatever
  piece the board reports. So when the expected move at the current ply is an
  under-promotion (and the engine never writes an under-promotion for a move it was
  asked to make with a queen), no drop is accepted at that ply (the handler throws on an
  illegal move and returns false on a legal one, and in both cases position, ply index
  and log stay as they were), the outcome does not depend on the reported piece, the only
  event that raises the ply index is the coach button, and the coach button does raise it
  when the engine reads the expected move.
\<close>

theorem underpromotion_needs_coach:
  assumes "render E s = Inr es" and "ply s < length es"
    and "underpromotion (es ! ply s)"
    and "\<forall>f t q mv. obj_move E (fen s) f t (Some CHR ''q'') = Some (q, mv) \<longrightarrow>
           \<not> underpromotion (san mv)"
  shows "(\<forall>f t piece.
            submitMove E es s f t piece = Inl (InvalidMove_obj f t (Some CHR ''q''))
            \<or> (\<exists>s1. submitMove E es s f t piece = Inr (False, s1)
                  \<and> ply s1 = ply s \<and> fen s1 = fen s \<and> coach s1 = coach s))
       \<and> (\<forall>f t piece. \<exists>s1. fire E (PieceDrop f t piece) s = Inr s1
            \<and> ply s1 = ply s \<and> fen s1 = fen s \<and> coach s1 = coach s)
       \<and> (\<forall>f t piece piece'. submitMove E es s f t piece = submitMove E es s f t piece')
       \<and> (\<forall>ev s'. fire E ev s = Inr s' \<and> ply s < ply s' \<longrightarrow> ev = CoachClick)
       \<and> (\<forall>q mv. \<not> solved s \<and> san_move E (fen s) (es ! ply s) = Some (q, mv) \<longrightarrow>
            (\<exists>s'. fire E CoachClick s = Inr s' \<and> ply s' = ply s + 1 \<and> fen s' = q))"
proof -
  have v: "valid_fen E (fen s)" using assms(1) by (simp add: render_Inr)
  have no: "\<And>f t q mv. obj_move E (fen s) f t (Some CHR ''q'') = Some (q, mv) \<Longrightarrow>
      \<not> correct es (ply s) (san mv)"
  proof
    fix f t q mv
    assume m: "obj_move E (fen s) f t (Some CHR ''q'') = Some (q, mv)"
      and c: "correct es (ply s) (san mv)"
    from c have "promotion_letter (es ! ply s) = promotion_letter (san mv)"
      using promotion_letter_clean[of "es ! ply s" "san mv"] by (simp add: correct_def)
    then have "underpromotion (san mv)" using assms(3) by (simp add: underpromotion_def)
    then show False using assms(4) m by blast
  qed
  have rej: "\<forall>f t piece.
            submitMove E es s f t piece = Inl (InvalidMove_obj f t (Some CHR ''q''))
            \<or> (\<exists>s1. submitMove E es s f t piece = Inr (False, s1)
                  \<and> ply s1 = ply s \<and> fen s1 = fen s \<and> coach s1 = coach s)"
  proof (intro allI)
    fix f t piece
    show "submitMove E es s f t piece = Inl (InvalidMove_obj f t (Some CHR ''q''))
            \<or> (\<exists>s1. submitMove E es s f t piece = Inr (False, s1)
                  \<and> ply s1 = ply s \<and> fen s1 = fen s \<and> coach s1 = coach s)"
    proof (cases "obj_move E (fen s) f t (Some CHR ''q'')")
      case None
      then show ?thesis by (simp add: submitMove_def onDrop_valid[OF v])
    next
      case (Some a)
      obtain q mv where "a = (q, mv)" by (cases a)
      then show ?thesis using Some no[of f t q mv]
        by (simp add: submitMove_def onDrop_valid[OF v])
    qed
  qed
  have stay: "\<forall>f t piece. \<exists>s1. fire E (PieceDrop f t piece) s = Inr s1
            \<and> ply s1 = ply s \<and> fen s1 = fen s \<and> coach s1 = coach s"
  proof (intro allI)
    fix f t piece
    show "\<exists>s1. fire E (PieceDrop f t piece) s = Inr s1
            \<and> ply s1 = ply s \<and> fen s1 = fen s \<and> coach s1 = coach s"
    proof (cases "obj_move E (fen s) f t (Some CHR ''q'')")
      case None
      then show ?thesis by (simp add: fire_drop[OF assms(1)])
    next
      case (Some a)
      obtain q mv where "a = (q, mv)" by (cases a)
      then show ?thesis using Some no[of f t q mv]
        by (simp add: fire_drop[OF assms(1)])
    qed
  qed
  have indep: "\<forall>f t piece piece'. submitMove E es s f t piece = submitMove E es s f t piece'"
    by (simp add: submitMove_def)
  have only: "\<forall>ev s'. fire E ev s = Inr s' \<and> ply s < ply s' \<longrightarrow> ev = CoachClick"
  proof (intro allI impI)
    fix ev s' assume a: "fire E ev s = Inr s' \<and> ply s < ply s'"
    have "\<forall>f t piece. \<exists>s1. fire E (PieceDrop f t piece) s = Inr s1 \<and> ply s1 = ply s"
      using stay by blast
    from fire_ply_grows[OF assms(1) _ _ this] a show "ev = CoachClick" by blast
  qed
  have coach: "\<forall>q mv. \<not> solved s \<and> san_move E (fen s) (es ! ply s) = Some (q, mv) \<longrightarrow>
            (\<exists>s'. fire E CoachClick s = Inr s' \<and> ply s' = ply s + 1 \<and> fen s' = q)"
    using assms(2) by (simp add: fire_coach[OF assms(1)])
  show ?thesis using rej stay indep only coach by blast
qed

text \<open>
  The knight puzzle expects \<open>a8=N\<close>: the drop a7-a8 is played as \<open>a8=Q\<close> and refused even
  when the board reports a knight, the illegal drop a7-a1 throws and changes nothing, and
  the coach button plays the move.
\<close>

theorem underpromotion_needs_coach_witness:
  "render demo_engine (initial knight_puzzle) = Inr [''a8=N'']
   \<and> ply (initial knight_puzzle) < length [''a8=N'']
   \<and> underpromotion ([''a8=N''] ! ply (initial knight_puzzle))
   \<and> obj_move demo_engine (fen (initial knight_puzzle)) ''a7'' ''a8'' (Some CHR ''q'') =
       Some (''Q7/7k/8/8/8/8/8/K7 b - - 0 1'', \<lparr>san = ''a8=Q'', from_sq = ''a7'', to_sq = ''a8''\<rparr>)
   \<and> \<not> underpromotion ''a8=Q''
   \<and> submitMove demo_engine [''a8=N''] (initial knight_puzzle) ''a7'' ''a8'' ''wN'' =
       Inr (False, (initial knight_puzzle)\<lparr>wrong := True\<rparr>)
   \<and> submitMove demo_engine [''a8=N''] (initial knight_puzzle) ''a7'' ''a1'' ''wP'' =
       Inl (InvalidMove_obj ''a7'' ''a1'' (Some CHR ''q''))
   \<and> fire demo_engine (PieceDrop ''a7'' ''a1'' ''wP'') (initial knight_puzzle) =
       Inr (initial knight_puzzle)
   \<and> fire demo_engine CoachClick (initial knight_puzzle) =
       Inr ((initial knight_puzzle)\<lparr>fen := ''N7/7k/8/8/8/8/8/K7 b - - 0 1'', ply := 1,
              solved := True, coach := [\<lparr>item_ok = True, item_text = ''a8=N''\<rparr>]\<rparr>)"
proof -
  let ?s = "initial knight_puzzle"
  have h1: "render demo_engine ?s = Inr [''a8=N'']" by code_simp
  have h2: "ply ?s < length [''a8=N'']" by code_simp
  have h3: "underpromotion ([''a8=N''] ! ply ?s)" by code_simp
  have f: "fen ?s = ''8/P6k/8/8/8/8/8/K7 w - - 0 1''" by code_simp
  have u: "\<not> underpromotion ''a8=Q''" "\<not> underpromotion ''Kb2''" by code_simp+
  have h4: "\<forall>f t q mv. obj_move demo_engine (fen ?s) f t (Some CHR ''q'') = Some (q, mv) \<longrightarrow>
      \<not> underpromotion (san mv)"
    unfolding f using u
    by (auto simp add: demo_engine_def demo_obj_move_def demo_table_def demo_result_def
        split: if_splits)
  note t = underpromotion_needs_coach[OF h1 h2 h3 h4]
  have a: "submitMove demo_engine [''a8=N''] ?s ''a7'' ''a8'' ''wN'' =
       Inr (False, ?s\<lparr>wrong := True\<rparr>)" by code_simp
  have a': "submitMove demo_engine [''a8=N''] ?s ''a7'' ''a1'' ''wP'' =
       Inl (InvalidMove_obj ''a7'' ''a1'' (Some CHR ''q''))" by code_simp
  have a'': "fire demo_engine (PieceDrop ''a7'' ''a1'' ''wP'') ?s = Inr ?s" by code_simp
  have b: "fire demo_engine CoachClick ?s =
       Inr (?s\<lparr>fen := ''N7/7k/8/8/8/8/8/K7 b - - 0 1'', ply := 1,
              solved := True, coach := [\<lparr>item_ok = True, item_text = ''a8=N''\<rparr>]\<rparr>)"
    by code_simp
  have c: "obj_move demo_engine (fen ?s) ''a7'' ''a8'' (Some CHR ''q'') =
       Some (''Q7/7k/8/8/8/8/8/K7 b - - 0 1'', \<lparr>san = ''a8=Q'', from_sq = ''a7'', to_sq = ''a8''\<rparr>)"
    by code_simp
  from t h1 h2 h3 u(1) a a' a'' b c show ?thesis by blast
qed

end
